theory Spec2Isabelle
  imports Main "HOL-Library.AList"
begin

section \<open>The persistence glue of the state container (src/stores/index.ts)\<close>

text \<open>
  The module restores a saved snapshot from \<^verbatim>\<open>localStorage\<close> at start-up, saves the state
  after every change of the store, and trims a copy of the state when saving fails.
  The TypeScript mutates objects in place, so objects live in an explicit heap and every
  function that touches an object takes the heap and returns the new one.
\<close>

subsection \<open>Exceptions\<close>

text \<open>
  What the JavaScript can throw here, under the names of the specification:
  \<open>QuotaExceeded\<close> is the \<^verbatim>\<open>QuotaExceededError\<close> of \<^verbatim>\<open>localStorage.setItem\<close>,
  \<open>Unavailable\<close> any other fault of the storage layer, \<open>CorruptSnapshot\<close> the
  \<^verbatim>\<open>SyntaxError\<close> of \<^verbatim>\<open>JSON.parse\<close>, \<open>InvariantViolation\<close> the error of a failed
  \<^verbatim>\<open>checkCondition\<close>.
\<close>

datatype exn = QuotaExceeded | Unavailable | CorruptSnapshot | InvariantViolation

subsection \<open>Objects and the heap\<close>

type_synonym addr = nat

text \<open>
  A JavaScript object used as a dictionary: its own keys with their values, in the order
  of \<^verbatim>\<open>Object.keys\<close>. The type \<open>'v\<close> stands for the JSON values this module never looks
  into (a game specification, a contact, the user, the remaining fields of an object).
\<close>

type_synonym 'v dict = "(string \<times> 'v) list"

record 'v matchInfo =
  gameSpecId :: string
  lastUpdatedOn :: int
  matchRest :: 'v

text \<open>The object \<^verbatim>\<open>state.gameSpecs\<close>: it refers to the dictionary of game specifications.\<close>

record 'v gameSpecsObj =
  gameSpecIdToGameSpec :: addr
  gameSpecsRest :: 'v

text \<open>
  A \<^verbatim>\<open>StoreState\<close> object: the references to its three nested objects that
  \<^verbatim>\<open>trimState\<close> changes, and its other fields. This module never writes into the user
  record or into the remaining fields, so they are kept as values.
\<close>

record 'v storeStateObj =
  gameSpecs :: addr
  matchesList :: addr
  phoneNumberToContact :: addr
  myUser :: 'v
  stateRest :: 'v

text \<open>
  The heap, one table per TypeScript type (objects of different types never alias).
  Every address below \<open>nextAddr\<close> is in use; \<^verbatim>\<open>{}\<close>, an object literal and
  \<^verbatim>\<open>deepCopy\<close> take their new objects from \<open>nextAddr\<close> on.
\<close>

record 'v heap =
  stateObjs :: "addr \<Rightarrow> 'v storeStateObj"
  gameSpecsObjs :: "addr \<Rightarrow> 'v gameSpecsObj"
  specDicts :: "addr \<Rightarrow> 'v dict"
  matchArrays :: "addr \<Rightarrow> 'v matchInfo list"
  contactDicts :: "addr \<Rightarrow> 'v dict"
  nextAddr :: addr

text \<open>The value of a state object: what \<^verbatim>\<open>JSON.stringify\<close> sees when it walks the object.\<close>

record 'v stateValue =
  vSpecs :: "'v dict"
  vGameSpecsRest :: 'v
  vMatches :: "'v matchInfo list"
  vContacts :: "'v dict"
  vMyUser :: 'v
  vStateRest :: 'v

definition readState :: "'v heap \<Rightarrow> addr \<Rightarrow> 'v stateValue" where
  "readState h state =
     (let st = stateObjs h state; gs = gameSpecsObjs h (gameSpecs st)
      in \<lparr> vSpecs = specDicts h (gameSpecIdToGameSpec gs),
           vGameSpecsRest = gameSpecsRest gs,
           vMatches = matchArrays h (matchesList st),
           vContacts = contactDicts h (phoneNumberToContact st),
           vMyUser = myUser st,
           vStateRest = stateRest st \<rparr>)"

subsection \<open>The JavaScript built-ins that \<^verbatim>\<open>trimState\<close> calls\<close>

definition objectKeys :: "(string \<times> 'a) list \<Rightarrow> string list" where
  "objectKeys obj = map fst obj"

text \<open>\<^verbatim>\<open>Array.prototype.indexOf\<close>: the first index holding the element, or \<open>-1\<close>.\<close>

fun indexOfFrom :: "'a list \<Rightarrow> 'a \<Rightarrow> int \<Rightarrow> int" where
  "indexOfFrom [] x i = - 1"
| "indexOfFrom (y # ys) x i = (if y = x then i else indexOfFrom ys x (i + 1))"

definition indexOf :: "'a list \<Rightarrow> 'a \<Rightarrow> int" where
  "indexOf xs x = indexOfFrom xs x 0"

text \<open>
  \<^verbatim>\<open>Array.prototype.splice(start, deleteCount)\<close> with no inserted items: a negative
  \<open>start\<close> counts from the end, and both ends are clamped to the array.
\<close>

definition splice :: "'a list \<Rightarrow> int \<Rightarrow> nat \<Rightarrow> 'a list" where
  "splice xs start deleteCount =
     (let n = int (length xs);
          s = nat (if start < 0 then max (n + start) 0 else min start n)
      in take s xs @ drop (s + deleteCount) xs)"

subsection \<open>\<^verbatim>\<open>trimState\<close>\<close>

text \<open>
  The first loop of \<^verbatim>\<open>trimState\<close>: the keys of the dictionary for which
  \<^verbatim>\<open>matchesList.find(m => m.gameSpecId === specId)\<close> finds nothing.
\<close>

definition gameSpecsToDelete :: "'v matchInfo list \<Rightarrow> 'v dict \<Rightarrow> string list" where
  "gameSpecsToDelete matches specs =
     filter (\<lambda>specId. find (\<lambda>m. gameSpecId m = specId) matches = None) (objectKeys specs)"

text \<open>
  \<^verbatim>\<open>matchesList.reduce((accum, curr) => accum.lastUpdatedOn > curr.lastUpdatedOn ? curr : accum,
  matchesList[0])\<close>, called on a non-empty array only.
\<close>

definition oldestMatch :: "'v matchInfo list \<Rightarrow> 'v matchInfo" where
  "oldestMatch matches =
     foldl (\<lambda>accum curr. if lastUpdatedOn accum > lastUpdatedOn curr then curr else accum)
       (matches ! 0) matches"

text \<open>
  \<^verbatim>\<open>trimState(state)\<close> on the heap \<open>h\<close>; \<open>dflt\<close> is the address of the module constant
  \<^verbatim>\<open>storeStateDefault\<close> (its file is not part of the sources at hand, so it is a parameter).
  The first three branches change nested objects of \<open>state\<close> in place and return \<open>state\<close>
  itself; the last one builds the object \<^verbatim>\<open>{...storeStateDefault, myUser: state.myUser}\<close>,
  which shares the nested objects of \<^verbatim>\<open>storeStateDefault\<close>. Array elements are compared
  by value where \<^verbatim>\<open>indexOf\<close> compares references: the element sought is the first one
  with its \<open>lastUpdatedOn\<close>, so both find the same index.
\<close>

definition trimState :: "addr \<Rightarrow> 'v heap \<Rightarrow> addr \<Rightarrow> addr \<times> 'v heap" where
  "trimState dflt h state =
     (let st = stateObjs h state;
          dictRef = gameSpecIdToGameSpec (gameSpecsObjs h (gameSpecs st));
          specs = specDicts h dictRef;
          matches = matchArrays h (matchesList st);
          toDelete = gameSpecsToDelete matches specs
      in if length (objectKeys specs) > 0 \<and> length toDelete > 0 then
           (state, h\<lparr>specDicts := (specDicts h)(dictRef := fold AList.delete toDelete specs)\<rparr>)
         else if length matches > 0 then
           (let oldestIdx = indexOf matches (oldestMatch matches)
            in (state, h\<lparr>matchArrays := (matchArrays h)(matchesList st := splice matches oldestIdx 1)\<rparr>))
         else if length (objectKeys (contactDicts h (phoneNumberToContact st))) > 0 then
           (let n = nextAddr h
            in (state, h\<lparr>stateObjs := (stateObjs h)(state := st\<lparr>phoneNumberToContact := n\<rparr>),
                         contactDicts := (contactDicts h)(n := []),
                         nextAddr := Suc n\<rparr>))
         else
           (let n = nextAddr h
            in (n, h\<lparr>stateObjs := (stateObjs h)(n := (stateObjs h dflt)\<lparr>myUser := myUser st\<rparr>),
                     nextAddr := Suc n\<rparr>)))"

subsection \<open>The environment of the module\<close>

text \<open>
  What the module finds around it: the browser's \<^verbatim>\<open>window\<close> and \<^verbatim>\<open>localStorage\<close>,
  \<^verbatim>\<open>JSON\<close>, and the constant \<^verbatim>\<open>storeStateDefault\<close>. The storage has a state of
  its own, of type \<open>'ls\<close>; a call that throws leaves it as it was. Where the global
  \<^verbatim>\<open>localStorage\<close> is not defined at all, every call throws.
\<close>

record ('v, 'ls) env =
  windowDefined :: bool
  localStorageInWindow :: bool
  setItem :: "'ls \<Rightarrow> string \<Rightarrow> string \<Rightarrow> exn + 'ls"
  removeItem :: "'ls \<Rightarrow> string \<Rightarrow> exn + 'ls"
  getItem :: "'ls \<Rightarrow> string \<Rightarrow> string option"
  jsonStringify :: "'v stateValue \<Rightarrow> string"
  jsonParse :: "string \<Rightarrow> exn + 'v stateValue"
  storeStateDefault :: addr

text \<open>
  The calls a run makes, in order. The log is an observer's record: the code never reads it,
  and it is there so that "how many trims" and "no write" can be stated.
\<close>

datatype call =
    SetItemCall string string
  | RemoveItemCall string
  | GetItemCall string
  | DeepCopyCall addr
  | TrimStateCall addr
  | SubscribeCall

record ('v, 'ls) world =
  heap :: "'v heap"
  localStorage :: 'ls
  calls :: "call list"

definition REDUX_STATE_LOCAL_STORAGE_KEY :: string where
  "REDUX_STATE_LOCAL_STORAGE_KEY = ''reduxState''"

subsection \<open>Start-up: \<^verbatim>\<open>checkIfLocalStorageWorks\<close> and \<^verbatim>\<open>restoreOldState\<close>\<close>

definition checkIfLocalStorageWorks :: "('v, 'ls) env \<Rightarrow> ('v, 'ls) world \<Rightarrow> bool \<times> ('v, 'ls) world" where
  "checkIfLocalStorageWorks env w =
     (if windowDefined env \<and> \<not> localStorageInWindow env then (False, w)
      else
        (let w1 = w\<lparr>calls := calls w @ [SetItemCall ''testLocalStorage'' ''someTestValue'']\<rparr>
         in case setItem env (localStorage w1) ''testLocalStorage'' ''someTestValue'' of
              Inl e \<Rightarrow> (False, w1)
            | Inr ls1 \<Rightarrow>
                (let w2 = w1\<lparr>localStorage := ls1, calls := calls w1 @ [RemoveItemCall ''testLocalStorage'']\<rparr>
                 in case removeItem env (localStorage w2) ''testLocalStorage'' of
                      Inl e \<Rightarrow> (False, w2)
                    | Inr ls2 \<Rightarrow> (True, w2\<lparr>localStorage := ls2\<rparr>))))"

text \<open>
  \<^verbatim>\<open>restoreOldState\<close>: \<open>Inr None\<close> is the result \<^verbatim>\<open>undefined\<close>, \<open>Inl e\<close> an exception
  that leaves the function (\<^verbatim>\<open>JSON.parse\<close> is not inside a \<^verbatim>\<open>try\<close>). The test
  \<^verbatim>\<open>if (oldStateStr)\<close> is false for \<^verbatim>\<open>null\<close> and for the empty string.
\<close>

definition restoreOldState ::
    "('v, 'ls) env \<Rightarrow> bool \<Rightarrow> ('v, 'ls) world \<Rightarrow> (exn + 'v stateValue option) \<times> ('v, 'ls) world" where
  "restoreOldState env hasLocalStorage w =
     (if hasLocalStorage then
        (let w1 = w\<lparr>calls := calls w @ [GetItemCall REDUX_STATE_LOCAL_STORAGE_KEY]\<rparr>
         in case getItem env (localStorage w1) REDUX_STATE_LOCAL_STORAGE_KEY of
              None \<Rightarrow> (Inr None, w1)
            | Some oldStateStr \<Rightarrow>
                if oldStateStr \<noteq> [] then
                  (case jsonParse env oldStateStr of
                     Inl e \<Rightarrow> (Inl e, w1)
                   | Inr oldState \<Rightarrow> (Inr (Some oldState), w1))
                else (Inr None, w1))
      else (Inr None, w))"

subsection \<open>Saving: \<^verbatim>\<open>saveStateInLocalStorage\<close>, \<^verbatim>\<open>deepCopy\<close> and the listener\<close>

definition saveStateInLocalStorage ::
    "('v, 'ls) env \<Rightarrow> addr \<Rightarrow> ('v, 'ls) world \<Rightarrow> (exn + unit) \<times> ('v, 'ls) world" where
  "saveStateInLocalStorage env state w =
     (let str = jsonStringify env (readState (heap w) state);
          w1 = w\<lparr>calls := calls w @ [SetItemCall REDUX_STATE_LOCAL_STORAGE_KEY str]\<rparr>
      in case setItem env (localStorage w1) REDUX_STATE_LOCAL_STORAGE_KEY str of
           Inl e \<Rightarrow> (Inl e, w1)
         | Inr ls \<Rightarrow> (Inr (), w1\<lparr>localStorage := ls\<rparr>))"

text \<open>
  Modelled from the spec: \<^verbatim>\<open>deepCopy\<close> of \<^verbatim>\<open>../globals\<close>, whose file is not part of the
  sources at hand. The specification calls its result "a deep copy of the state": a new
  state object with the same value, none of whose nested objects is shared with the original.
\<close>

definition deepCopy :: "'v heap \<Rightarrow> addr \<Rightarrow> addr \<times> 'v heap" where
  "deepCopy h state =
     (let n = nextAddr h;
          st = stateObjs h state;
          gs = gameSpecsObjs h (gameSpecs st)
      in (n, h\<lparr>stateObjs := (stateObjs h)
                   (n := st\<lparr>gameSpecs := n + 1, matchesList := n + 3, phoneNumberToContact := n + 4\<rparr>),
               gameSpecsObjs := (gameSpecsObjs h)(n + 1 := gs\<lparr>gameSpecIdToGameSpec := n + 2\<rparr>),
               specDicts := (specDicts h)(n + 2 := specDicts h (gameSpecIdToGameSpec gs)),
               matchArrays := (matchArrays h)(n + 3 := matchArrays h (matchesList st)),
               contactDicts := (contactDicts h)(n + 4 := contactDicts h (phoneNumberToContact st)),
               nextAddr := n + 5\<rparr>))"

text \<open>
  The loop \<^verbatim>\<open>for (let i = 0; i < 100; i++) { try { state = trimState(state);
  saveStateInLocalStorage(state); return; } catch (e) { } }\<close> from the value \<open>i\<close> of its
  counter on. \<^verbatim>\<open>trimState\<close> has finished, and \<open>state\<close> has been assigned, when the save throws.
\<close>

function trimLoop :: "('v, 'ls) env \<Rightarrow> nat \<Rightarrow> addr \<Rightarrow> ('v, 'ls) world \<Rightarrow> ('v, 'ls) world" where
  "trimLoop env i state w =
     (if i < 100 then
        (let (state', h') = trimState (storeStateDefault env) (heap w) state;
             w1 = w\<lparr>heap := h', calls := calls w @ [TrimStateCall state]\<rparr>
         in case saveStateInLocalStorage env state' w1 of
              (Inr u, w2) \<Rightarrow> w2
            | (Inl e, w2) \<Rightarrow> trimLoop env (i + 1) state' w2)
      else w)"
  by pat_completeness auto
termination
  by (relation "measure (\<lambda>(env, i, state, w). 100 - i)") auto

declare trimLoop.simps [simp del]

text \<open>
  The function given to \<^verbatim>\<open>store.subscribe\<close>; \<open>liveState\<close> is what \<^verbatim>\<open>store.getState()\<close>
  returns. The first component of the result is how the listener ends: \<open>Inr ()\<close> for a
  return, \<open>Inl e\<close> for an exception that reaches the caller.
\<close>

definition listener ::
    "('v, 'ls) env \<Rightarrow> bool \<Rightarrow> addr \<Rightarrow> ('v, 'ls) world \<Rightarrow> (exn + unit) \<times> ('v, 'ls) world" where
  "listener env hasLocalStorage liveState w =
     (if hasLocalStorage then
        (case saveStateInLocalStorage env liveState w of
           (Inr u, w1) \<Rightarrow> (Inr (), w1)
         | (Inl e, w1) \<Rightarrow>
             (let (state, h) = deepCopy (heap w1) liveState;
                  w2 = w1\<lparr>heap := h, calls := calls w1 @ [DeepCopyCall liveState]\<rparr>
              in (Inr (), trimLoop env 0 state w2)))
      else (Inr (), w))"

subsection \<open>The module as a whole\<close>

text \<open>
  The store of the \<^verbatim>\<open>redux\<close> library, as far as this module uses it: the functions
  given to \<^verbatim>\<open>subscribe\<close>, which the store calls after every state change. The only
  function this module ever subscribes is the one of \<^verbatim>\<open>persistNewState\<close>.
\<close>

datatype listenerFn = PersistNewStateListener

record reduxStore =
  listeners :: "listenerFn list"

definition createStore :: reduxStore where
  "createStore = \<lparr>listeners = []\<rparr>"

definition subscribe :: "listenerFn \<Rightarrow> reduxStore \<Rightarrow> reduxStore" where
  "subscribe f st = st\<lparr>listeners := listeners st @ [f]\<rparr>"

text \<open>\<^verbatim>\<open>persistNewState\<close> subscribes its function whatever \<^verbatim>\<open>hasLocalStorage\<close> is.\<close>

definition persistNewState :: "reduxStore \<Rightarrow> ('v, 'ls) world \<Rightarrow> reduxStore \<times> ('v, 'ls) world" where
  "persistNewState st w =
     (subscribe PersistNewStateListener st, w\<lparr>calls := calls w @ [SubscribeCall]\<rparr>)"

text \<open>The constants of the module once its top-level statements have run.\<close>

record 'v moduleState =
  isInUnitTests :: bool
  hasLocalStorage :: bool
  persistedOldStore :: "'v stateValue option"
  store :: reduxStore
  resizeEvents :: "string list"

text \<open>
  The top-level statements in their order: the probe, \<^verbatim>\<open>restoreOldState()\<close>,
  \<^verbatim>\<open>createStore\<close>, \<^verbatim>\<open>persistNewState()\<close>, and the two \<^verbatim>\<open>window.addEventListener\<close>
  calls outside unit tests. An exception of \<^verbatim>\<open>restoreOldState\<close> ends the loading.
\<close>

definition loadModule ::
    "('v, 'ls) env \<Rightarrow> ('v, 'ls) world \<Rightarrow> (exn + 'v moduleState) \<times> ('v, 'ls) world" where
  "loadModule env w =
     (let (works, w1) = checkIfLocalStorageWorks env w
      in case restoreOldState env works w1 of
           (Inl e, w2) \<Rightarrow> (Inl e, w2)
         | (Inr oldState, w2) \<Rightarrow>
             (let (st, w3) = persistNewState createStore w2
              in (Inr \<lparr> isInUnitTests = \<not> windowDefined env,
                        hasLocalStorage = works,
                        persistedOldStore = oldState,
                        store = st,
                        resizeEvents = (if \<not> windowDefined env then []
                                        else [''resize'', ''orientationchange'']) \<rparr>,
                  w3)))"

text \<open>
  One state change: the store calls its subscribed functions in order; \<open>liveState\<close> is the
  state the store holds. An exception of one of them ends the notification.
\<close>

fun notify ::
    "('v, 'ls) env \<Rightarrow> bool \<Rightarrow> listenerFn list \<Rightarrow> addr \<Rightarrow> ('v, 'ls) world \<Rightarrow> (exn + unit) \<times> ('v, 'ls) world" where
  "notify env works [] liveState w = (Inr (), w)"
| "notify env works (PersistNewStateListener # fs) liveState w =
     (case listener env works liveState w of
        (Inl e, w1) \<Rightarrow> (Inl e, w1)
      | (Inr u, w1) \<Rightarrow> notify env works fs liveState w1)"

text \<open>
  The life of the process after loading: a sequence of state changes. The reducer is not
  part of this module, so each change comes with the heap it has produced and the address
  of the new live state.
\<close>

fun lifetime ::
    "('v, 'ls) env \<Rightarrow> 'v moduleState \<Rightarrow> ('v heap \<times> addr) list \<Rightarrow> ('v, 'ls) world \<Rightarrow> ('v, 'ls) world" where
  "lifetime env m [] w = w"
| "lifetime env m ((h, liveState) # changes) w =
     lifetime env m changes
       (snd (notify env (hasLocalStorage m) (listeners (store m)) liveState (w\<lparr>heap := h\<rparr>)))"

subsection \<open>\<^verbatim>\<open>dispatch\<close>\<close>

text \<open>
  Modelled from the spec: \<^verbatim>\<open>checkCondition\<close> of \<^verbatim>\<open>../globals\<close>, whose file is not part of
  the sources at hand. The specification says that violating the single-key constraint
  "fails fast" with an \<open>InvariantViolation\<close>; a condition that holds is returned.
\<close>

definition checkCondition :: "string \<Rightarrow> bool \<Rightarrow> exn + bool" where
  "checkCondition desc cond = (if cond then Inr cond else Inl InvariantViolation)"

text \<open>
  An action object: its own keys with their values, in the order of \<^verbatim>\<open>Object.keys\<close>.
  A value is a payload or the string that \<^verbatim>\<open>dispatch\<close> stores under \<^verbatim>\<open>type\<close>.
\<close>

datatype 'p propValue = Payload 'p | TypeName string

type_synonym 'p action = "(string \<times> 'p propValue) list"

text \<open>
  \<^verbatim>\<open>dispatch(action)\<close>; \<open>storeDispatch\<close> is \<^verbatim>\<open>store.dispatch\<close> of \<^verbatim>\<open>redux\<close> on the store
  \<open>st\<close>. The assignment \<^verbatim>\<open>actionWithType.type = actionType[0]\<close> writes into the caller's
  object, so the object is returned as well.
\<close>

definition dispatch ::
    "('p action \<Rightarrow> 's \<Rightarrow> exn + 's) \<Rightarrow> 'p action \<Rightarrow> 's \<Rightarrow> (exn + 's) \<times> 'p action" where
  "dispatch storeDispatch action st =
     (let actionType = objectKeys action
      in case checkCondition ''actionType'' (length actionType = 1) of
           Inl e \<Rightarrow> (Inl e, action)
         | Inr ok \<Rightarrow>
             (let actionWithType = AList.update ''type'' (TypeName (actionType ! 0)) action
              in (storeDispatch actionWithType st, actionWithType)))"

subsection \<open>Vocabulary of the properties\<close>

text \<open>
  A game specification is orphaned in a state when it is in the dictionary and no match
  of the state refers to it.
\<close>

definition orphaned :: "'v stateValue \<Rightarrow> string \<Rightarrow> bool" where
  "orphaned s specId \<longleftrightarrow> specId \<in> fst ` set (vSpecs s) \<and> specId \<notin> gameSpecId ` set (vMatches s)"

text \<open>Reading the log: the calls of one kind, and the calls made between two worlds.\<close>

fun isTrimStateCall :: "call \<Rightarrow> bool" where
  "isTrimStateCall (TrimStateCall a) = True"
| "isTrimStateCall c = False"

fun isSetItemCall :: "call \<Rightarrow> bool" where
  "isSetItemCall (SetItemCall k v) = True"
| "isSetItemCall c = False"

definition callsSince :: "('v, 'ls) world \<Rightarrow> ('v, 'ls) world \<Rightarrow> call list" where
  "callsSince w w' = drop (length (calls w)) (calls w')"

text \<open>
  The value of the state that \<^verbatim>\<open>trimState\<close> returns, and \<^verbatim>\<open>trimState\<close> applied \<open>n\<close>
  times, each time to the state returned before (the way the loop of the listener uses it).
\<close>

definition valueOf :: "addr \<times> 'v heap \<Rightarrow> 'v stateValue" where
  "valueOf r = readState (snd r) (fst r)"

fun trimTimes :: "addr \<Rightarrow> nat \<Rightarrow> addr \<times> 'v heap \<Rightarrow> addr \<times> 'v heap" where
  "trimTimes dflt 0 r = r"
| "trimTimes dflt (Suc n) r = trimTimes dflt n (trimState dflt (snd r) (fst r))"

text \<open>
  A state with nothing left for the first three branches of \<^verbatim>\<open>trimState\<close>, and the
  number that every one of these branches makes smaller.
\<close>

definition fullyTrimmed :: "'v stateValue \<Rightarrow> bool" where
  "fullyTrimmed v \<longleftrightarrow> vSpecs v = [] \<and> vMatches v = [] \<and> vContacts v = []"

definition trimSize :: "'v stateValue \<Rightarrow> nat" where
  "trimSize v = length (vSpecs v) + length (vMatches v) + (if vContacts v = [] then 0 else 1)"

text \<open>Every object that is in use in \<open>h\<close> is in \<open>h'\<close> as it was in \<open>h\<close>.\<close>

definition sameObjects :: "'v heap \<Rightarrow> 'v heap \<Rightarrow> bool" where
  "sameObjects h h' \<longleftrightarrow>
     nextAddr h \<le> nextAddr h' \<and>
     (\<forall>a<nextAddr h. stateObjs h' a = stateObjs h a \<and> gameSpecsObjs h' a = gameSpecsObjs h a
        \<and> specDicts h' a = specDicts h a \<and> matchArrays h' a = matchArrays h a
        \<and> contactDicts h' a = contactDicts h a)"

text \<open>The address of \<^verbatim>\<open>state.gameSpecs.gameSpecIdToGameSpec\<close>.\<close>

definition specDictOf :: "'v heap \<Rightarrow> addr \<Rightarrow> addr" where
  "specDictOf h state = gameSpecIdToGameSpec (gameSpecsObjs h (gameSpecs (stateObjs h state)))"

text \<open>
  A state object all of whose nested objects are in use, and the objects that the retry
  loop trims: made after the heap \<open>h0\<close> was taken, with nested objects either made after
  \<open>h0\<close> as well (the copy) or those of \<^verbatim>\<open>storeStateDefault\<close> (the result of the last branch).
\<close>

definition allocatedState :: "'v heap \<Rightarrow> addr \<Rightarrow> bool" where
  "allocatedState h state \<longleftrightarrow>
     state < nextAddr h \<and> gameSpecs (stateObjs h state) < nextAddr h \<and> specDictOf h state < nextAddr h
     \<and> matchesList (stateObjs h state) < nextAddr h \<and> phoneNumberToContact (stateObjs h state) < nextAddr h"

definition ownCopy :: "'v heap \<Rightarrow> addr \<Rightarrow> 'v heap \<Rightarrow> addr \<Rightarrow> bool" where
  "ownCopy h0 dflt h state \<longleftrightarrow>
     sameObjects h0 h \<and> nextAddr h0 \<le> state \<and>
     (nextAddr h0 \<le> gameSpecs (stateObjs h state) \<and> nextAddr h0 \<le> specDictOf h state
        \<and> nextAddr h0 \<le> matchesList (stateObjs h state)
      \<or> gameSpecs (stateObjs h state) = gameSpecs (stateObjs h0 dflt)
        \<and> matchesList (stateObjs h state) = matchesList (stateObjs h0 dflt))"

text \<open>
  The same environment with the kind of every exception of a write replaced by
  \<open>QuotaExceeded\<close>: a write succeeds in the one exactly when it succeeds in the other.
\<close>

definition asQuotaExceeded :: "('v, 'ls) env \<Rightarrow> ('v, 'ls) env" where
  "asQuotaExceeded env =
     env\<lparr>setItem := (\<lambda>ls key value.
            case setItem env ls key value of Inl e \<Rightarrow> Inl QuotaExceeded | Inr ls' \<Rightarrow> Inr ls')\<rparr>"

text \<open>The functions subscribed to the store when the module has loaded (none if loading failed).\<close>

definition loadedListeners :: "exn + 'v moduleState \<Rightarrow> listenerFn list" where
  "loadedListeners r = (case r of Inl e \<Rightarrow> [] | Inr m \<Rightarrow> listeners (store m))"

subsection \<open>Example inputs\<close>

text \<open>
  A heap that holds \<^verbatim>\<open>storeStateDefault\<close> alone, at address 0, with no game
  specification, no match and no contact.
\<close>

definition defaultsHeap :: "string heap" where
  "defaultsHeap =
     \<lparr> stateObjs = (\<lambda>a. \<lparr>gameSpecs = 0, matchesList = 0, phoneNumberToContact = 0,
                          myUser = ''nobody'', stateRest = ''no dimensions''\<rparr>),
       gameSpecsObjs = (\<lambda>a. \<lparr>gameSpecIdToGameSpec = 0, gameSpecsRest = ''no images''\<rparr>),
       specDicts = (\<lambda>a. []),
       matchArrays = (\<lambda>a. []),
       contactDicts = (\<lambda>a. []),
       nextAddr = 1 \<rparr>"

definition aliceObj :: "string storeStateObj" where
  "aliceObj = \<lparr>gameSpecs = 1, matchesList = 1, phoneNumberToContact = 1,
               myUser = ''alice'', stateRest = ''800x600''\<rparr>"

text \<open>The state at address 1 has three game specifications; its one match uses \<open>go\<close>.\<close>

definition threeSpecsHeap :: "string heap" where
  "threeSpecsHeap =
     defaultsHeap
       \<lparr> stateObjs := (stateObjs defaultsHeap)(1 := aliceObj),
         gameSpecsObjs := (gameSpecsObjs defaultsHeap)
            (1 := \<lparr>gameSpecIdToGameSpec = 1, gameSpecsRest = ''images''\<rparr>),
         specDicts := (specDicts defaultsHeap)
            (1 := [(''chess'', ''spec c''), (''go'', ''spec g''), (''checkers'', ''spec k'')]),
         matchArrays := (matchArrays defaultsHeap)
            (1 := [\<lparr>gameSpecId = ''go'', lastUpdatedOn = 7, matchRest = ''with bob''\<rparr>]),
         contactDicts := (contactDicts defaultsHeap)(1 := [(''+15550100'', ''bob'')]),
         nextAddr := 2 \<rparr>"

text \<open>The state at address 1 has no game specification and two matches, of times 100 and 200.\<close>

definition twoMatchesHeap :: "string heap" where
  "twoMatchesHeap =
     defaultsHeap
       \<lparr> stateObjs := (stateObjs defaultsHeap)(1 := aliceObj),
         gameSpecsObjs := (gameSpecsObjs defaultsHeap)
            (1 := \<lparr>gameSpecIdToGameSpec = 1, gameSpecsRest = ''images''\<rparr>),
         matchArrays := (matchArrays defaultsHeap)
            (1 := [\<lparr>gameSpecId = ''go'', lastUpdatedOn = 100, matchRest = ''with bob''\<rparr>,
                   \<lparr>gameSpecId = ''chess'', lastUpdatedOn = 200, matchRest = ''with carol''\<rparr>]),
         contactDicts := (contactDicts defaultsHeap)(1 := [(''+15550100'', ''bob'')]),
         nextAddr := 2 \<rparr>"

text \<open>A storage that refuses every write for lack of room, and a world around it.\<close>

definition fullStorageEnv :: "(string, unit) env" where
  "fullStorageEnv =
     \<lparr> windowDefined = True,
       localStorageInWindow = True,
       setItem = (\<lambda>ls key value. Inl QuotaExceeded),
       removeItem = (\<lambda>ls key. Inr ls),
       getItem = (\<lambda>ls key. None),
       jsonStringify = (\<lambda>s. ''{}''),
       jsonParse = (\<lambda>str. Inl CorruptSnapshot),
       storeStateDefault = 0 \<rparr>"

definition threeSpecsWorld :: "(string, unit) world" where
  "threeSpecsWorld = \<lparr>heap = threeSpecsHeap, localStorage = (), calls = []\<rparr>"

text \<open>
  Stand-ins for \<^verbatim>\<open>JSON\<close>: a text with one letter for each game specification and each
  match, and a parser that accepts the text of the empty object only.
\<close>

definition sizeText :: "string stateValue \<Rightarrow> string" where
  "sizeText s = replicate (length (vSpecs s)) CHR ''s'' @ replicate (length (vMatches s)) CHR ''m''"

definition parseEmptyOnly :: "string \<Rightarrow> exn + string stateValue" where
  "parseEmptyOnly str =
     (if str = ''{}'' then Inr (readState defaultsHeap 0) else Inl CorruptSnapshot)"

text \<open>A storage that works: the keys with their strings.\<close>

definition roomyEnv :: "(string, (string \<times> string) list) env" where
  "roomyEnv =
     \<lparr> windowDefined = True,
       localStorageInWindow = True,
       setItem = (\<lambda>ls key value. Inr (AList.update key value ls)),
       removeItem = (\<lambda>ls key. Inr (AList.delete key ls)),
       getItem = (\<lambda>ls key. map_of ls key),
       jsonStringify = sizeText,
       jsonParse = parseEmptyOnly,
       storeStateDefault = 0 \<rparr>"

text \<open>
  The same storage, except that a snapshot of more than two characters is refused as
  \<open>Unavailable\<close>. Writes under other keys, the one of the probe among them, succeed.
\<close>

definition pickyEnv :: "(string, (string \<times> string) list) env" where
  "pickyEnv =
     roomyEnv\<lparr>setItem := (\<lambda>ls key value.
                 if key = ''reduxState'' \<and> length value > 2 then Inl Unavailable
                 else Inr (AList.update key value ls))\<rparr>"

text \<open>A world whose stored snapshot is not JSON, and one with nothing stored.\<close>

definition corruptWorld :: "(string, (string \<times> string) list) world" where
  "corruptWorld = \<lparr>heap = defaultsHeap, localStorage = [(''reduxState'', ''{broken'')], calls = []\<rparr>"

definition freshWorld :: "(string, (string \<times> string) list) world" where
  "freshWorld = \<lparr>heap = threeSpecsHeap, localStorage = [], calls = []\<rparr>"

text \<open>A stand-in for \<^verbatim>\<open>store.dispatch\<close>: the store keeps the actions it was given.\<close>

definition recordAction :: "string action \<Rightarrow> string action list \<Rightarrow> exn + string action list" where
  "recordAction a st = Inr (st @ [a])"

section \<open>Properties\<close>

subsection \<open>The built-ins and the helpers of \<^verbatim>\<open>trimState\<close>\<close>

lemma fold_delete_filter:
  "fold AList.delete ks d = filter (\<lambda>kv. fst kv \<notin> set ks) d"
proof (induction ks arbitrary: d)
  case Nil
  show ?case by simp
next
  case (Cons k ks)
  have "fold AList.delete (k # ks) d = filter (\<lambda>kv. fst kv \<notin> set ks) (AList.delete k d)"
    by (simp add: Cons.IH)
  also have "\<dots> = filter (\<lambda>kv. fst kv \<notin> set (k # ks)) d"
    by (auto simp: AList.delete_eq intro!: filter_cong)
  finally show ?case .
qed

lemma find_None_iff_ref:
  "(find (\<lambda>m. gameSpecId m = k) ms = None) = (k \<notin> gameSpecId ` set ms)"
  by (auto simp: find_None_iff)

lemma set_gameSpecsToDelete:
  "set (gameSpecsToDelete ms d) = {k \<in> fst ` set d. k \<notin> gameSpecId ` set ms}"
  by (auto simp: gameSpecsToDelete_def objectKeys_def find_None_iff_ref)

lemma trimmed_specs:
  "fold AList.delete (gameSpecsToDelete ms d) d = filter (\<lambda>kv. fst kv \<in> gameSpecId ` set ms) d"
  by (auto simp: fold_delete_filter set_gameSpecsToDelete intro!: filter_cong)

lemma indexOfFrom_first:
  "x \<in> set xs \<Longrightarrow> \<exists>i<length xs. indexOfFrom xs x k = k + int i \<and> xs ! i = x \<and> (\<forall>j<i. xs ! j \<noteq> x)"
proof (induction xs arbitrary: k)
  case Nil
  then show ?case by simp
next
  case (Cons y ys)
  show ?case
  proof (cases "y = x")
    case True
    then show ?thesis by (intro exI[of _ 0]) simp
  next
    case False
    with Cons.prems have "x \<in> set ys" by simp
    from Cons.IH[OF this, of "k + 1"] obtain i where
      i: "i < length ys" "indexOfFrom ys x (k + 1) = k + 1 + int i" "ys ! i = x" "\<forall>j<i. ys ! j \<noteq> x"
      by blast
    show ?thesis
    proof (intro exI[of _ "Suc i"] conjI allI impI)
      fix j assume "j < Suc i"
      then show "(y # ys) ! j \<noteq> x" using False i(4) by (cases j) auto
    qed (use False i in auto)
  qed
qed

lemma foldl_oldest:
  fixes f :: "'v matchInfo \<Rightarrow> 'v matchInfo \<Rightarrow> 'v matchInfo"
  defines "f \<equiv> (\<lambda>accum curr. if lastUpdatedOn accum > lastUpdatedOn curr then curr else accum)"
  shows "(foldl f acc xs = acc \<and> (\<forall>x\<in>set xs. lastUpdatedOn acc \<le> lastUpdatedOn x))
       \<or> (\<exists>i<length xs. xs ! i = foldl f acc xs \<and> lastUpdatedOn (xs ! i) < lastUpdatedOn acc
            \<and> (\<forall>j<i. lastUpdatedOn (xs ! i) < lastUpdatedOn (xs ! j))
            \<and> (\<forall>j<length xs. lastUpdatedOn (xs ! i) \<le> lastUpdatedOn (xs ! j)))"
proof (induction xs rule: rev_induct)
  case Nil
  show ?case by simp
next
  case (snoc x xs)
  let ?r = "foldl f acc xs"
  have step: "foldl f acc (xs @ [x]) = (if lastUpdatedOn ?r > lastUpdatedOn x then x else ?r)"
    by (simp add: f_def)
  from snoc.IH show ?case
  proof (elim disjE conjE exE)
    assume a: "?r = acc" "\<forall>x\<in>set xs. lastUpdatedOn acc \<le> lastUpdatedOn x"
    show ?thesis
    proof (cases "lastUpdatedOn acc > lastUpdatedOn x")
      case True
      have "\<forall>j<length xs. lastUpdatedOn x < lastUpdatedOn (xs ! j)"
        using a(2) True by (metis leD leI nth_mem order.strict_trans2)
      then show ?thesis using True a step
        by (intro disjI2 exI[of _ "length xs"]) (auto simp: nth_append less_Suc_eq)
    next
      case False
      then show ?thesis using a step by (intro disjI1) auto
    qed
  next
    fix i assume i: "i < length xs" "xs ! i = ?r" "lastUpdatedOn (xs ! i) < lastUpdatedOn acc"
      "\<forall>j<i. lastUpdatedOn (xs ! i) < lastUpdatedOn (xs ! j)"
      "\<forall>j<length xs. lastUpdatedOn (xs ! i) \<le> lastUpdatedOn (xs ! j)"
    show ?thesis
    proof (cases "lastUpdatedOn ?r > lastUpdatedOn x")
      case True
      have "\<forall>j<length xs. lastUpdatedOn x < lastUpdatedOn (xs ! j)"
        using i True by (metis order.strict_trans2)
      then show ?thesis using True i step
        by (intro disjI2 exI[of _ "length xs"]) (auto simp: nth_append less_Suc_eq)
    next
      case False
      then show ?thesis using i step
        by (intro disjI2 exI[of _ i]) (auto simp: nth_append less_Suc_eq)
    qed
  qed
qed

lemma toDelete_Nil_iff:
  "(gameSpecsToDelete ms d = []) = (\<forall>k \<in> fst ` set d. k \<in> gameSpecId ` set ms)"
  using set_gameSpecsToDelete[of ms d] by (metis (mono_tags, lifting) Collect_empty_eq empty_iff mem_Collect_eq set_empty)

lemma oldest_index:
  assumes "ms \<noteq> []"
  shows "\<exists>i<length ms. indexOf ms (oldestMatch ms) = int i
           \<and> (\<forall>j<length ms. lastUpdatedOn (ms ! i) \<le> lastUpdatedOn (ms ! j))
           \<and> (\<forall>j<i. lastUpdatedOn (ms ! i) < lastUpdatedOn (ms ! j))"
proof -
  let ?r = "oldestMatch ms"
  have "\<exists>i<length ms. ms ! i = ?r
           \<and> (\<forall>j<length ms. lastUpdatedOn (ms ! i) \<le> lastUpdatedOn (ms ! j))
           \<and> (\<forall>j<i. lastUpdatedOn (ms ! i) < lastUpdatedOn (ms ! j))"
    using foldl_oldest[of "ms ! 0" ms] assms unfolding oldestMatch_def
    by (elim disjE conjE exE) (force intro!: exI[of _ 0] , blast)
  then obtain i where i: "i < length ms" "ms ! i = ?r"
    "\<forall>j<length ms. lastUpdatedOn (ms ! i) \<le> lastUpdatedOn (ms ! j)"
    "\<forall>j<i. lastUpdatedOn (ms ! i) < lastUpdatedOn (ms ! j)" by blast
  then have "?r \<in> set ms" by (metis nth_mem)
  from indexOfFrom_first[OF this, of 0] obtain i' where
    i': "i' < length ms" "indexOf ms ?r = int i'" "ms ! i' = ?r" "\<forall>j<i'. ms ! j \<noteq> ?r"
    unfolding indexOf_def by auto
  have "i' = i"
  proof (rule ccontr)
    assume "i' \<noteq> i"
    then consider "i' < i" | "i < i'" by linarith
    then show False
    proof cases
      case 1 then show ?thesis using i(4) i'(3) i(2) by force
    next
      case 2 then show ?thesis using i'(4) i(2) by blast
    qed
  qed
  with i i' show ?thesis by blast
qed

lemma splice_one: "i < length xs \<Longrightarrow> splice xs (int i) (Suc 0) = take i xs @ drop (Suc i) xs"
  by (simp add: splice_def Let_def)

subsection \<open>The retry loop\<close>

lemma save_fail:
  "setItem env (localStorage w) REDUX_STATE_LOCAL_STORAGE_KEY (jsonStringify env (readState (heap w) state)) = Inl e \<Longrightarrow>
   saveStateInLocalStorage env state w =
     (Inl e, w\<lparr>calls := calls w @ [SetItemCall REDUX_STATE_LOCAL_STORAGE_KEY (jsonStringify env (readState (heap w) state))]\<rparr>)"
  by (simp add: saveStateInLocalStorage_def Let_def)

lemma save_ok:
  "setItem env (localStorage w) REDUX_STATE_LOCAL_STORAGE_KEY (jsonStringify env (readState (heap w) state)) = Inr ls \<Longrightarrow>
   saveStateInLocalStorage env state w =
     (Inr (), w\<lparr>calls := calls w @ [SetItemCall REDUX_STATE_LOCAL_STORAGE_KEY (jsonStringify env (readState (heap w) state))],
                localStorage := ls\<rparr>)"
  by (simp add: saveStateInLocalStorage_def Let_def)

lemma save_heap [simp]: "heap (snd (saveStateInLocalStorage env state w)) = heap w"
  by (simp add: saveStateInLocalStorage_def Let_def split: sum.splits)

lemma save_calls:
  "calls (snd (saveStateInLocalStorage env state w)) =
     calls w @ [SetItemCall REDUX_STATE_LOCAL_STORAGE_KEY (jsonStringify env (readState (heap w) state))]"
  by (simp add: saveStateInLocalStorage_def Let_def split: sum.splits)

lemma save_fail_storage:
  "fst (saveStateInLocalStorage env state w) = Inl e \<Longrightarrow>
     localStorage (snd (saveStateInLocalStorage env state w)) = localStorage w"
  by (simp add: saveStateInLocalStorage_def Let_def split: sum.splits)

text \<open>One round of the loop, in the two ways it can end.\<close>

lemma trimLoop_step:
  assumes "i < 100"
  shows "trimLoop env i state w =
     (let r = trimState (storeStateDefault env) (heap w) state;
          s = saveStateInLocalStorage env (fst r) (w\<lparr>heap := snd r, calls := calls w @ [TrimStateCall state]\<rparr>)
      in case fst s of Inr u \<Rightarrow> snd s | Inl e \<Rightarrow> trimLoop env (i + 1) (fst r) (snd s))"
  using assms
  by (subst trimLoop.simps) (simp add: Let_def split: prod.splits sum.splits)

lemma trimLoop_done: "\<not> i < 100 \<Longrightarrow> trimLoop env i state w = w"
  by (subst trimLoop.simps) simp


text \<open>When every write fails, the loop runs all its rounds and leaves the storage alone.\<close>

lemma trimLoop_all_fail:
  assumes "\<And>ls v. \<exists>e. setItem env ls REDUX_STATE_LOCAL_STORAGE_KEY v = Inl e"
  shows "\<exists>new. calls (trimLoop env i state w) = calls w @ new
           \<and> length (filter isTrimStateCall new) = 100 - i
           \<and> length (filter isSetItemCall new) = 100 - i
           \<and> localStorage (trimLoop env i state w) = localStorage w"
proof (induction k \<equiv> "100 - i" arbitrary: i state w)
  case 0
  then show ?case by (simp add: trimLoop_done)
next
  case (Suc k)
  then have True: "i < 100" and k: "k = 100 - (i + 1)" by simp_all
  let ?r = "trimState (storeStateDefault env) (heap w) state"
  let ?w1 = "w\<lparr>heap := snd ?r, calls := calls w @ [TrimStateCall state]\<rparr>"
  let ?s = "saveStateInLocalStorage env (fst ?r) ?w1"
  let ?new = "[TrimStateCall state,
        SetItemCall REDUX_STATE_LOCAL_STORAGE_KEY (jsonStringify env (readState (snd ?r) (fst ?r)))]"
  have c: "calls (snd ?s) = calls w @ ?new"
    by (simp add: save_calls)
  obtain e where e: "fst ?s = Inl e"
    using assms[of "localStorage ?w1" "jsonStringify env (readState (heap ?w1) (fst ?r))"]
    by (auto simp: saveStateInLocalStorage_def Let_def)
  then have ls: "localStorage (snd ?s) = localStorage w"
    using save_fail_storage[OF e] by simp
  have t: "trimLoop env i state w = trimLoop env (i + 1) (fst ?r) (snd ?s)"
    using True e by (simp add: trimLoop_step Let_def)
  from Suc.hyps(1)[OF k, of "fst ?r" "snd ?s"]
  obtain new where "calls (trimLoop env (i + 1) (fst ?r) (snd ?s)) = calls (snd ?s) @ new"
    "length (filter isTrimStateCall new) = 100 - (i + 1)"
    "length (filter isSetItemCall new) = 100 - (i + 1)"
    "localStorage (trimLoop env (i + 1) (fst ?r) (snd ?s)) = localStorage (snd ?s)" by blast
  then show ?case unfolding t c ls using True
    by (intro exI[of _ "?new @ new"]) simp
qed

subsection \<open>The branches of \<^verbatim>\<open>trimState\<close>\<close>

lemma readState_sel:
  "vSpecs (readState h state) = specDicts h (specDictOf h state)"
  "vMatches (readState h state) = matchArrays h (matchesList (stateObjs h state))"
  "vContacts (readState h state) = contactDicts h (phoneNumberToContact (stateObjs h state))"
  "vMyUser (readState h state) = myUser (stateObjs h state)"
  by (simp_all add: readState_def specDictOf_def Let_def)

lemma toDelete_orphaned:
  "(gameSpecsToDelete (vMatches v) (vSpecs v) \<noteq> []) = (\<exists>specId. orphaned v specId)"
  unfolding toDelete_Nil_iff orphaned_def by blast

lemma no_matches_toDelete: "(gameSpecsToDelete [] specs = []) = (specs = [])"
  by (simp add: gameSpecsToDelete_def objectKeys_def)

text \<open>The four branches of \<^verbatim>\<open>trimState\<close>, each under its condition.\<close>

lemma trimState_specs:
  assumes "\<exists>specId. orphaned (readState h state) specId"
  shows "trimState dflt h state =
     (state, h\<lparr>specDicts := (specDicts h)(specDictOf h state :=
         filter (\<lambda>kv. \<not> orphaned (readState h state) (fst kv)) (vSpecs (readState h state)))\<rparr>)"
proof -
  let ?specs = "specDicts h (specDictOf h state)"
  let ?ms = "matchArrays h (matchesList (stateObjs h state))"
  from assms have ne: "gameSpecsToDelete ?ms ?specs \<noteq> []"
    using toDelete_orphaned[of "readState h state"] by (simp add: readState_sel)
  then have ne': "?specs \<noteq> []"
    by (auto simp: gameSpecsToDelete_def objectKeys_def)
  have f: "fold AList.delete (gameSpecsToDelete ?ms ?specs) ?specs
      = filter (\<lambda>kv. \<not> orphaned (readState h state) (fst kv)) ?specs"
    unfolding trimmed_specs by (rule filter_cong) (auto simp: orphaned_def readState_sel)
  show ?thesis
    using ne ne' f by (simp add: trimState_def Let_def objectKeys_def readState_sel specDictOf_def)
qed

lemma trimState_matches:
  assumes "\<not> (\<exists>specId. orphaned (readState h state) specId)" and "vMatches (readState h state) \<noteq> []"
  shows "\<exists>i<length (vMatches (readState h state)).
           (\<forall>j<length (vMatches (readState h state)).
               lastUpdatedOn (vMatches (readState h state) ! i) \<le> lastUpdatedOn (vMatches (readState h state) ! j))
         \<and> (\<forall>j<i. lastUpdatedOn (vMatches (readState h state) ! i) < lastUpdatedOn (vMatches (readState h state) ! j))
         \<and> trimState dflt h state =
             (state, h\<lparr>matchArrays := (matchArrays h)(matchesList (stateObjs h state) :=
                 take i (vMatches (readState h state)) @ drop (Suc i) (vMatches (readState h state)))\<rparr>)"
proof -
  let ?specs = "specDicts h (specDictOf h state)"
  let ?ms = "matchArrays h (matchesList (stateObjs h state))"
  from assms(1) have e: "gameSpecsToDelete ?ms ?specs = []"
    using toDelete_orphaned[of "readState h state"] by (simp add: readState_sel)
  from assms(2) have ne: "?ms \<noteq> []" by (simp add: readState_sel)
  have t: "trimState dflt h state =
      (state, h\<lparr>matchArrays := (matchArrays h)(matchesList (stateObjs h state) :=
          splice ?ms (indexOf ?ms (oldestMatch ?ms)) 1)\<rparr>)"
    using e ne by (simp add: trimState_def Let_def specDictOf_def)
  from oldest_index[OF ne] obtain i where i: "i < length ?ms" "indexOf ?ms (oldestMatch ?ms) = int i"
    "\<forall>j<length ?ms. lastUpdatedOn (?ms ! i) \<le> lastUpdatedOn (?ms ! j)"
    "\<forall>j<i. lastUpdatedOn (?ms ! i) < lastUpdatedOn (?ms ! j)" by blast
  show ?thesis
    unfolding t readState_sel using i by (intro exI[of _ i]) (simp add: splice_one)
qed

lemma trimState_contacts:
  assumes "vSpecs (readState h state) = []" and "vMatches (readState h state) = []"
      and "vContacts (readState h state) \<noteq> []"
  shows "trimState dflt h state =
     (state, h\<lparr>stateObjs := (stateObjs h)(state := (stateObjs h state)\<lparr>phoneNumberToContact := nextAddr h\<rparr>),
               contactDicts := (contactDicts h)(nextAddr h := []),
               nextAddr := Suc (nextAddr h)\<rparr>)"
  using assms
  by (simp add: trimState_def Let_def objectKeys_def readState_sel specDictOf_def gameSpecsToDelete_def)

lemma trimState_default:
  assumes "fullyTrimmed (readState h state)"
  shows "trimState dflt h state =
     (nextAddr h, h\<lparr>stateObjs := (stateObjs h)(nextAddr h := (stateObjs h dflt)\<lparr>myUser := myUser (stateObjs h state)\<rparr>),
                    nextAddr := Suc (nextAddr h)\<rparr>)"
  using assms
  by (simp add: fullyTrimmed_def trimState_def Let_def objectKeys_def readState_sel specDictOf_def
      gameSpecsToDelete_def)

lemma trim_cases:
  obtains (specs) "\<exists>specId. orphaned (readState h state) specId"
  | (matches) "\<not> (\<exists>specId. orphaned (readState h state) specId)" "vMatches (readState h state) \<noteq> []"
  | (contacts) "vSpecs (readState h state) = []" "vMatches (readState h state) = []"
      "vContacts (readState h state) \<noteq> []"
  | (default) "fullyTrimmed (readState h state)"
proof -
  have "vMatches (readState h state) = [] \<Longrightarrow> \<not> (\<exists>specId. orphaned (readState h state) specId)
        \<Longrightarrow> vSpecs (readState h state) = []"
    using toDelete_orphaned[of "readState h state"] by (simp add: no_matches_toDelete)
  then show ?thesis
    using that unfolding fullyTrimmed_def by blast
qed

lemma orphaned_not_trimmed: "orphaned v specId \<Longrightarrow> vSpecs v \<noteq> []"
  by (auto simp: orphaned_def)

lemma trimState_keeps_default:
  assumes "dflt < nextAddr h" and "fullyTrimmed (readState h dflt)"
  shows "readState (snd (trimState dflt h state)) dflt = readState h dflt
       \<and> dflt < nextAddr (snd (trimState dflt h state))"
proof (cases rule: trim_cases[of h state])
  case specs
  then have "vSpecs (readState h state) \<noteq> []" by (auto dest: orphaned_not_trimmed)
  with assms(2) have "specDictOf h dflt \<noteq> specDictOf h state"
    by (auto simp: fullyTrimmed_def readState_sel)
  then show ?thesis
    using assms(1) unfolding trimState_specs[OF specs]
    by (simp add: readState_def Let_def specDictOf_def)
next
  case matches
  with assms(2) have ne: "matchesList (stateObjs h dflt) \<noteq> matchesList (stateObjs h state)"
    by (auto simp: fullyTrimmed_def readState_sel)
  from trimState_matches[OF matches, of dflt] obtain ms where
    "trimState dflt h state = (state, h\<lparr>matchArrays := (matchArrays h)(matchesList (stateObjs h state) := ms)\<rparr>)"
    by blast
  then show ?thesis using assms(1) ne by (simp add: readState_def Let_def)
next
  case contacts
  with assms(2) have ne: "dflt \<noteq> state"
    by (auto simp: fullyTrimmed_def)
  from assms(2) have "contactDicts h (phoneNumberToContact (stateObjs h dflt)) = []"
    by (simp add: fullyTrimmed_def readState_sel)
  then show ?thesis
    using assms(1) ne unfolding trimState_contacts[OF contacts]
    by (simp add: readState_def Let_def)
next
  case default
  show ?thesis
    using assms(1) unfolding trimState_default[OF default]
    by (simp add: readState_def Let_def)
qed

lemma trimState_default_value:
  assumes "fullyTrimmed (readState h state)"
  shows "valueOf (trimState dflt h state) = (readState h dflt)\<lparr>vMyUser := vMyUser (readState h state)\<rparr>"
  unfolding trimState_default[OF assms] valueOf_def
  by (simp add: readState_def Let_def)

lemma trimState_shrinks:
  assumes "\<not> fullyTrimmed (readState h state)"
  shows "trimSize (valueOf (trimState dflt h state)) < trimSize (readState h state)
       \<and> vMyUser (valueOf (trimState dflt h state)) = vMyUser (readState h state)"
proof (cases rule: trim_cases[of h state])
  case specs
  then obtain specId where o: "orphaned (readState h state) specId" by blast
  then obtain x where x: "x \<in> set (vSpecs (readState h state))" "fst x = specId"
    by (auto simp: orphaned_def)
  have "length (filter (\<lambda>kv. \<not> orphaned (readState h state) (fst kv)) (vSpecs (readState h state)))
      < length (vSpecs (readState h state))"
    using x o by (intro length_filter_less[of x]) auto
  then show ?thesis
    unfolding trimState_specs[OF specs] valueOf_def
    by (simp add: readState_def Let_def specDictOf_def trimSize_def)
next
  case matches
  from trimState_matches[OF matches, of dflt] obtain i where i: "i < length (vMatches (readState h state))"
    and t: "trimState dflt h state =
             (state, h\<lparr>matchArrays := (matchArrays h)(matchesList (stateObjs h state) :=
                 take i (vMatches (readState h state)) @ drop (Suc i) (vMatches (readState h state)))\<rparr>)"
    by blast
  show ?thesis
    unfolding t valueOf_def using i
    by (simp add: readState_def Let_def trimSize_def)
next
  case contacts
  show ?thesis
    unfolding trimState_contacts[OF contacts] valueOf_def using contacts
    by (simp add: readState_def Let_def trimSize_def)
next
  case default
  with assms show ?thesis by simp
qed
lemma trimTimes_reaches_default:
  assumes "dflt < nextAddr h" and "fullyTrimmed (readState h dflt)"
      and "trimSize (readState h state) < n"
  shows "valueOf (trimTimes dflt n (state, h)) = (readState h dflt)\<lparr>vMyUser := vMyUser (readState h state)\<rparr>"
  using assms
proof (induction n arbitrary: state h)
  case 0
  then show ?case by simp
next
  case (Suc n)
  let ?r = "trimState dflt h state"
  let ?F = "(readState h dflt)\<lparr>vMyUser := vMyUser (readState h state)\<rparr>"
  from trimState_keeps_default[OF Suc.prems(1,2), of state]
  have d: "readState (snd ?r) dflt = readState h dflt" "dflt < nextAddr (snd ?r)" by simp_all
  then have d': "fullyTrimmed (readState (snd ?r) dflt)" using Suc.prems(2) by simp
  have step: "trimTimes dflt (Suc n) (state, h) = trimTimes dflt n (fst ?r, snd ?r)" by simp
  have v: "readState (snd ?r) (fst ?r) = valueOf ?r" by (simp add: valueOf_def)
  show ?case
  proof (cases "fullyTrimmed (readState h state)")
    case True
    have F: "valueOf ?r = ?F" by (rule trimState_default_value[OF True])
    have tF: "trimSize ?F = 0" using Suc.prems(2) by (simp add: trimSize_def fullyTrimmed_def)
    show ?thesis
    proof (cases n)
      case 0
      then show ?thesis unfolding step using F by (simp add: valueOf_def)
    next
      case (Suc k)
      then have "trimSize (readState (snd ?r) (fst ?r)) < n" unfolding v F tF by simp
      from Suc.IH[OF d(2) d' this] show ?thesis unfolding step d(1) v F by simp
    qed
  next
    case False
    from trimState_shrinks[OF False, of dflt]
    have s: "trimSize (valueOf ?r) < trimSize (readState h state)"
      "vMyUser (valueOf ?r) = vMyUser (readState h state)" by simp_all
    with Suc.prems(3) have "trimSize (readState (snd ?r) (fst ?r)) < n" unfolding v by simp
    from Suc.IH[OF d(2) d' this] show ?thesis unfolding step d(1) v s(2) .
  qed
qed

subsection \<open>The listener\<close>

lemma listener_first_write_fails:
  assumes "setItem env (localStorage w) REDUX_STATE_LOCAL_STORAGE_KEY
             (jsonStringify env (readState (heap w) liveState)) = Inl e"
  shows "listener env True liveState w =
     (Inr (), trimLoop env 0 (fst (deepCopy (heap w) liveState))
        (w\<lparr>heap := snd (deepCopy (heap w) liveState),
           calls := calls w @ [SetItemCall REDUX_STATE_LOCAL_STORAGE_KEY
                                 (jsonStringify env (readState (heap w) liveState)),
                               DeepCopyCall liveState]\<rparr>))"
  by (simp add: listener_def save_fail[OF assms] Let_def split: prod.splits)

lemma trimLoop_write_succeeds:
  assumes "i < 100"
      and "setItem env (localStorage w) REDUX_STATE_LOCAL_STORAGE_KEY
             (jsonStringify env (valueOf (trimState (storeStateDefault env) (heap w) state))) = Inr ls"
  shows "trimLoop env i state w =
     w\<lparr>heap := snd (trimState (storeStateDefault env) (heap w) state),
       calls := calls w @ [TrimStateCall state, SetItemCall REDUX_STATE_LOCAL_STORAGE_KEY
          (jsonStringify env (valueOf (trimState (storeStateDefault env) (heap w) state)))],
       localStorage := ls\<rparr>"
proof -
  let ?r = "trimState (storeStateDefault env) (heap w) state"
  let ?w1 = "w\<lparr>heap := snd ?r, calls := calls w @ [TrimStateCall state]\<rparr>"
  have "setItem env (localStorage ?w1) REDUX_STATE_LOCAL_STORAGE_KEY
      (jsonStringify env (readState (heap ?w1) (fst ?r))) = Inr ls"
    using assms(2) by (simp add: valueOf_def)
  from save_ok[OF this] show ?thesis
    using assms(1) by (simp add: trimLoop_step Let_def valueOf_def)
qed

lemma freshWorld_value: "jsonStringify pickyEnv (readState (heap freshWorld) 1) = ''sssm''"
  by (simp add: readState_def pickyEnv_def roomyEnv_def freshWorld_def threeSpecsHeap_def
        defaultsHeap_def aliceObj_def sizeText_def)

lemma freshWorld_copy: "fst (deepCopy (heap freshWorld) 1) = 2"
  by (simp add: deepCopy_def freshWorld_def threeSpecsHeap_def Let_def)

lemma freshWorld_trimmed:
  "jsonStringify pickyEnv (valueOf (trimState 0 (snd (deepCopy (heap freshWorld) 1)) 2)) = ''sm''"
  by (simp add: valueOf_def deepCopy_def trimState_def
      readState_def pickyEnv_def roomyEnv_def freshWorld_def threeSpecsHeap_def defaultsHeap_def
      aliceObj_def sizeText_def gameSpecsToDelete_def objectKeys_def Let_def)

text \<open>The run of the listener on the example whose first write fails.\<close>

lemma freshWorld_run:
  "setItem pickyEnv (localStorage freshWorld) REDUX_STATE_LOCAL_STORAGE_KEY
      (jsonStringify pickyEnv (readState (heap freshWorld) 1)) = Inl Unavailable
   \<and> calls (snd (listener pickyEnv True 1 freshWorld)) =
       [SetItemCall ''reduxState'' ''sssm'', DeepCopyCall 1, TrimStateCall 2,
        SetItemCall ''reduxState'' ''sm'']
   \<and> localStorage (snd (listener pickyEnv True 1 freshWorld)) = [(''reduxState'', ''sm'')]"
proof -
  let ?w2 = "freshWorld\<lparr>heap := snd (deepCopy (heap freshWorld) 1),
           calls := calls freshWorld @ [SetItemCall REDUX_STATE_LOCAL_STORAGE_KEY
                                 (jsonStringify pickyEnv (readState (heap freshWorld) 1)),
                               DeepCopyCall 1]\<rparr>"
  have d: "storeStateDefault pickyEnv = 0"
    by (simp add: pickyEnv_def roomyEnv_def)
  have f: "setItem pickyEnv (localStorage freshWorld) REDUX_STATE_LOCAL_STORAGE_KEY
      (jsonStringify pickyEnv (readState (heap freshWorld) 1)) = Inl Unavailable"
    unfolding freshWorld_value
    by (simp add: pickyEnv_def roomyEnv_def REDUX_STATE_LOCAL_STORAGE_KEY_def)
  have s: "setItem pickyEnv (localStorage ?w2) REDUX_STATE_LOCAL_STORAGE_KEY
      (jsonStringify pickyEnv (valueOf (trimState (storeStateDefault pickyEnv) (heap ?w2) 2)))
      = Inr [(''reduxState'', ''sm'')]"
    unfolding d using freshWorld_trimmed
    by (simp add: pickyEnv_def roomyEnv_def freshWorld_def REDUX_STATE_LOCAL_STORAGE_KEY_def)
  have "listener pickyEnv True 1 freshWorld = (Inr (), trimLoop pickyEnv 0 2 ?w2)"
    unfolding listener_first_write_fails[OF f] freshWorld_copy ..
  also have "trimLoop pickyEnv 0 2 ?w2 =
     ?w2\<lparr>heap := snd (trimState (storeStateDefault pickyEnv) (heap ?w2) 2),
       calls := calls ?w2 @ [TrimStateCall 2, SetItemCall REDUX_STATE_LOCAL_STORAGE_KEY
          (jsonStringify pickyEnv (valueOf (trimState (storeStateDefault pickyEnv) (heap ?w2) 2)))],
       localStorage := [(''reduxState'', ''sm'')]\<rparr>"
    by (rule trimLoop_write_succeeds[OF _ s]) simp
  finally have l: "snd (listener pickyEnv True 1 freshWorld) = 
     ?w2\<lparr>heap := snd (trimState (storeStateDefault pickyEnv) (heap ?w2) 2),
       calls := calls ?w2 @ [TrimStateCall 2, SetItemCall REDUX_STATE_LOCAL_STORAGE_KEY
          (jsonStringify pickyEnv (valueOf (trimState (storeStateDefault pickyEnv) (heap ?w2) 2)))],
       localStorage := [(''reduxState'', ''sm'')]\<rparr>" by simp
  have t: "jsonStringify pickyEnv (valueOf (trimState (storeStateDefault pickyEnv) (heap ?w2) 2)) = ''sm''"
    unfolding d using freshWorld_trimmed by simp
  have c0: "calls freshWorld = []"
    by (simp add: freshWorld_def)
  show ?thesis
    unfolding l freshWorld_value using f[unfolded freshWorld_value] t
    by (simp add: c0 REDUX_STATE_LOCAL_STORAGE_KEY_def)
qed

text \<open>The kind of the exception of a write plays no role in the loop or in the listener.\<close>

lemma asQuotaExceeded_sel [simp]:
  "storeStateDefault (asQuotaExceeded env) = storeStateDefault env"
  "jsonStringify (asQuotaExceeded env) = jsonStringify env"
  by (simp_all add: asQuotaExceeded_def)





lemma listener_off: "listener env False liveState w = (Inr (), w)"
  by (simp add: listener_def)

lemma notify_off: "notify env False fs liveState w = (Inr (), w)"
  by (induction env False fs liveState w rule: notify.induct) (simp_all add: listener_off)

lemma lifetime_off:
  "\<not> hasLocalStorage m \<Longrightarrow>
     lifetime env m changes w = w\<lparr>heap := (if changes = [] then heap w else fst (last changes))\<rparr>"
  by (induction env m changes w rule: lifetime.induct) (simp_all add: notify_off)

lemma restore_off: "restoreOldState env False w = (Inr None, w)"
  by (simp add: restoreOldState_def)

subsection \<open>The objects that the retry loop changes\<close>

lemma sameObjects_refl: "sameObjects h h"
  by (simp add: sameObjects_def)

lemma sameObjects_readState:
  "sameObjects h h' \<Longrightarrow> allocatedState h state \<Longrightarrow> readState h' state = readState h state"
  by (simp add: sameObjects_def allocatedState_def readState_def specDictOf_def Let_def)

lemma deepCopy_ownCopy: "ownCopy h dflt (snd (deepCopy h liveState)) (fst (deepCopy h liveState))"
  by (simp add: ownCopy_def sameObjects_def deepCopy_def specDictOf_def Let_def)

lemma default_like:
  assumes "allocatedState h0 dflt" and "sameObjects h0 h"
      and "gameSpecs (stateObjs h state) = gameSpecs (stateObjs h0 dflt)"
      and "matchesList (stateObjs h state) = matchesList (stateObjs h0 dflt)"
  shows "vSpecs (readState h state) = vSpecs (readState h0 dflt)"
    and "vMatches (readState h state) = vMatches (readState h0 dflt)"
  using assms
  by (simp_all add: allocatedState_def sameObjects_def readState_def specDictOf_def Let_def)

lemma trimState_ownCopy:
  assumes d: "allocatedState h0 dflt"
      and e: "vSpecs (readState h0 dflt) = []" "vMatches (readState h0 dflt) = []"
      and o: "ownCopy h0 dflt h state"
  shows "ownCopy h0 dflt (snd (trimState dflt h state)) (fst (trimState dflt h state))"
proof -
  from o have s: "sameObjects h0 h" and st: "nextAddr h0 \<le> state" by (simp_all add: ownCopy_def)
  from o consider
      (own) "nextAddr h0 \<le> gameSpecs (stateObjs h state)" "nextAddr h0 \<le> specDictOf h state"
            "nextAddr h0 \<le> matchesList (stateObjs h state)"
    | (like) "gameSpecs (stateObjs h state) = gameSpecs (stateObjs h0 dflt)"
             "matchesList (stateObjs h state) = matchesList (stateObjs h0 dflt)"
    by (auto simp: ownCopy_def)
  then show ?thesis
  proof cases
    case own
    show ?thesis
    proof (cases rule: trim_cases[of h state])
      case specs
      show ?thesis
        unfolding trimState_specs[OF specs] using s st own
        by (simp add: ownCopy_def sameObjects_def specDictOf_def)
    next
      case matches
      from trimState_matches[OF matches, of dflt] obtain ms where
        "trimState dflt h state = (state, h\<lparr>matchArrays := (matchArrays h)(matchesList (stateObjs h state) := ms)\<rparr>)"
        by blast
      then show ?thesis using s st own
        by (simp add: ownCopy_def sameObjects_def specDictOf_def)
    next
      case contacts
      show ?thesis
        unfolding trimState_contacts[OF contacts] using s st own
        by (simp add: ownCopy_def sameObjects_def specDictOf_def)
    next
      case default
      have "stateObjs h dflt = stateObjs h0 dflt"
        using s d by (simp add: sameObjects_def allocatedState_def)
      then show ?thesis
        unfolding trimState_default[OF default] using s
        by (simp add: ownCopy_def sameObjects_def)
    qed
  next
    case like
    from default_like[OF d s like] e
    have ee: "vSpecs (readState h state) = []" "vMatches (readState h state) = []" by simp_all
    show ?thesis
    proof (cases "vContacts (readState h state) = []")
      case False
      show ?thesis
        unfolding trimState_contacts[OF ee False] using s st like
        by (simp add: ownCopy_def sameObjects_def)
    next
      case True
      with ee have t: "fullyTrimmed (readState h state)" by (simp add: fullyTrimmed_def)
      have "stateObjs h dflt = stateObjs h0 dflt"
        using s d by (simp add: sameObjects_def allocatedState_def)
      then show ?thesis
        unfolding trimState_default[OF t] using s
        by (simp add: ownCopy_def sameObjects_def)
    qed
  qed
qed

lemma trimLoop_ownCopy:
  assumes d: "allocatedState h0 (storeStateDefault env)"
      and e: "vSpecs (readState h0 (storeStateDefault env)) = []"
             "vMatches (readState h0 (storeStateDefault env)) = []"
  shows "ownCopy h0 (storeStateDefault env) (heap w) state \<Longrightarrow>
         sameObjects h0 (heap (trimLoop env i state w))
       \<and> (\<exists>new. calls (trimLoop env i state w) = calls w @ new
             \<and> (\<forall>a. TrimStateCall a \<in> set new \<longrightarrow> nextAddr h0 \<le> a))"
proof (induction k \<equiv> "100 - i" arbitrary: i state w)
  case 0
  then show ?case by (simp add: trimLoop_done ownCopy_def)
next
  case (Suc k)
  then have True: "i < 100" and k: "k = 100 - (i + 1)" by simp_all
  let ?r = "trimState (storeStateDefault env) (heap w) state"
  let ?w1 = "w\<lparr>heap := snd ?r, calls := calls w @ [TrimStateCall state]\<rparr>"
  let ?s = "saveStateInLocalStorage env (fst ?r) ?w1"
  let ?new = "[TrimStateCall state,
        SetItemCall REDUX_STATE_LOCAL_STORAGE_KEY (jsonStringify env (readState (snd ?r) (fst ?r)))]"
  have c: "calls (snd ?s) = calls w @ ?new"
    by (simp add: save_calls)
  have hp: "heap (snd ?s) = snd ?r" by simp
  from trimState_ownCopy[OF d e Suc.prems]
  have o: "ownCopy h0 (storeStateDefault env) (heap (snd ?s)) (fst ?r)" unfolding hp .
  from Suc.prems have st: "nextAddr h0 \<le> state" by (simp add: ownCopy_def)
  show ?case
  proof (cases "fst ?s")
    case (Inr u)
    then have "trimLoop env i state w = snd ?s"
      using True by (simp add: trimLoop_step Let_def)
    then show ?thesis using c o st by (simp add: ownCopy_def)
  next
    case (Inl e')
    then have t: "trimLoop env i state w = trimLoop env (i + 1) (fst ?r) (snd ?s)"
      using True by (simp add: trimLoop_step Let_def)
    from Suc.hyps(1)[OF k o]
    obtain new where n: "sameObjects h0 (heap (trimLoop env (i + 1) (fst ?r) (snd ?s)))"
      "calls (trimLoop env (i + 1) (fst ?r) (snd ?s)) = calls (snd ?s) @ new"
      "\<forall>a. TrimStateCall a \<in> set new \<longrightarrow> nextAddr h0 \<le> a" by blast
    show ?thesis unfolding t c using n st
      by (intro conjI exI[of _ "?new @ new"]) (auto simp: c)
  qed
qed

section \<open>The claims\<close>

subsection \<open>C1: the storage is full at every write\<close>

text \<open>
  C1. When every write to the storage fails with \<open>QuotaExceeded\<close>, the listener makes its
  first write, then exactly 100 rounds of trimming and writing (so at most 100), gives up
  without an exception reaching its caller, and leaves the storage as it was.
\<close>

theorem listener_quota_always_exceeded:
  assumes "\<forall>ls key value. setItem env ls key value = Inl QuotaExceeded"
  shows "fst (listener env True liveState w) = Inr ()
       \<and> length (filter isTrimStateCall (callsSince w (snd (listener env True liveState w)))) = 100
       \<and> length (filter isSetItemCall (callsSince w (snd (listener env True liveState w)))) = 101
       \<and> localStorage (snd (listener env True liveState w)) = localStorage w"
proof -
  let ?str = "jsonStringify env (readState (heap w) liveState)"
  let ?w1 = "w\<lparr>calls := calls w @ [SetItemCall REDUX_STATE_LOCAL_STORAGE_KEY ?str]\<rparr>"
  let ?c = "deepCopy (heap ?w1) liveState"
  let ?w2 = "?w1\<lparr>heap := snd ?c, calls := calls ?w1 @ [DeepCopyCall liveState]\<rparr>"
  have s: "saveStateInLocalStorage env liveState w = (Inl QuotaExceeded, ?w1)"
    using assms by (simp add: save_fail)
  have l: "listener env True liveState w = (Inr (), trimLoop env 0 (fst ?c) ?w2)"
    by (simp add: listener_def s Let_def split: prod.splits)
  have "\<And>ls v. \<exists>e. setItem env ls REDUX_STATE_LOCAL_STORAGE_KEY v = Inl e"
    using assms by simp
  from trimLoop_all_fail[OF this, of 0 "fst ?c" ?w2]
  obtain new where new: "calls (trimLoop env 0 (fst ?c) ?w2) = calls ?w2 @ new"
    "length (filter isTrimStateCall new) = 100" "length (filter isSetItemCall new) = 100"
    "localStorage (trimLoop env 0 (fst ?c) ?w2) = localStorage ?w2" by auto
  show ?thesis
    unfolding l fst_conv snd_conv callsSince_def using new by simp
qed

theorem listener_quota_always_exceeded_witness:
  "(\<forall>ls key value. setItem fullStorageEnv ls key value = Inl QuotaExceeded)
   \<and> fst (listener fullStorageEnv True 1 threeSpecsWorld) = Inr ()
   \<and> length (filter isTrimStateCall
        (callsSince threeSpecsWorld (snd (listener fullStorageEnv True 1 threeSpecsWorld)))) = 100
   \<and> length (filter isSetItemCall
        (callsSince threeSpecsWorld (snd (listener fullStorageEnv True 1 threeSpecsWorld)))) = 101
   \<and> localStorage (snd (listener fullStorageEnv True 1 threeSpecsWorld)) = ()"
proof -
  have h: "\<forall>ls key value. setItem fullStorageEnv ls key value = Inl QuotaExceeded"
    by (simp add: fullStorageEnv_def)
  show ?thesis
    using h listener_quota_always_exceeded [OF h, of 1 threeSpecsWorld] by simp
qed

subsection \<open>C2: the snapshot read at start-up\<close>

text \<open>
  C2, as stated, fails: a stored string that \<^verbatim>\<open>JSON.parse\<close> rejects is not discarded.
  With \<open>{broken\<close> under the key, \<^verbatim>\<open>restoreOldState\<close> ends with the exception of the parser,
  and so does the loading of the module.
\<close>

theorem restoreOldState_corrupt_counterexample:
  "getItem roomyEnv (localStorage corruptWorld) REDUX_STATE_LOCAL_STORAGE_KEY = Some ''{broken''
   \<and> jsonParse roomyEnv ''{broken'' = Inl CorruptSnapshot
   \<and> fst (restoreOldState roomyEnv True corruptWorld) = Inl CorruptSnapshot
   \<and> fst (loadModule roomyEnv corruptWorld) = Inl CorruptSnapshot"
  by (simp add: restoreOldState_def loadModule_def checkIfLocalStorageWorks_def roomyEnv_def
      corruptWorld_def parseEmptyOnly_def REDUX_STATE_LOCAL_STORAGE_KEY_def Let_def)

text \<open>
  C2, amended. \<^verbatim>\<open>restoreOldState\<close> returns \<^verbatim>\<open>undefined\<close> when the storage does not work,
  the key is absent or the stored string is empty, and the decoded state when the string
  decodes; when the string does not decode, the exception of the decoder leaves
  \<^verbatim>\<open>restoreOldState\<close>: nothing catches it.
\<close>

theorem restoreOldState_outcomes:
  "(\<not> works \<or> getItem env (localStorage w) REDUX_STATE_LOCAL_STORAGE_KEY = None
      \<or> getItem env (localStorage w) REDUX_STATE_LOCAL_STORAGE_KEY = Some []
    \<longrightarrow> fst (restoreOldState env works w) = Inr None)
 \<and> (\<forall>str v. works \<and> getItem env (localStorage w) REDUX_STATE_LOCAL_STORAGE_KEY = Some str
        \<and> str \<noteq> [] \<and> jsonParse env str = Inr v
    \<longrightarrow> fst (restoreOldState env works w) = Inr (Some v))
 \<and> (\<forall>str e. works \<and> getItem env (localStorage w) REDUX_STATE_LOCAL_STORAGE_KEY = Some str
        \<and> str \<noteq> [] \<and> jsonParse env str = Inl e
    \<longrightarrow> fst (restoreOldState env works w) = Inl e)"
  by (auto simp: restoreOldState_def Let_def)

theorem restoreOldState_outcomes_witness:
  "fst (restoreOldState roomyEnv True freshWorld) = Inr None
   \<and> fst (restoreOldState roomyEnv True (freshWorld\<lparr>localStorage := [(''reduxState'', ''{}'')]\<rparr>))
       = Inr (Some (readState defaultsHeap 0))
   \<and> fst (restoreOldState roomyEnv True corruptWorld) = Inl CorruptSnapshot"
  using restoreOldState_outcomes [of True roomyEnv freshWorld]
    restoreOldState_outcomes [of True roomyEnv "freshWorld\<lparr>localStorage := [(''reduxState'', ''{}'')]\<rparr>"]
    restoreOldState_outcomes [of True roomyEnv corruptWorld]
  by (simp add: roomyEnv_def freshWorld_def corruptWorld_def parseEmptyOnly_def
      REDUX_STATE_LOCAL_STORAGE_KEY_def)

subsection \<open>C3: the live state during the recovery\<close>

text \<open>
  C3. Let \<^verbatim>\<open>storeStateDefault\<close> and the live state be objects in use, with their nested
  objects, and let \<^verbatim>\<open>storeStateDefault\<close> have no game specification and no match. Whatever
  the storage answers to each write, the listener leaves every object that was in use as it
  was: the live state has the value it had. Every call of \<^verbatim>\<open>trimState\<close> is on an object made
  after the listener started (the deep copy, or the object a previous call returned).
\<close>

theorem listener_leaves_live_state:
  assumes "allocatedState (heap w) (storeStateDefault env)"
      and "vSpecs (readState (heap w) (storeStateDefault env)) = []"
      and "vMatches (readState (heap w) (storeStateDefault env)) = []"
      and "allocatedState (heap w) liveState"
  shows "sameObjects (heap w) (heap (snd (listener env works liveState w)))
       \<and> readState (heap (snd (listener env works liveState w))) liveState = readState (heap w) liveState
       \<and> (\<forall>a. TrimStateCall a \<in> set (callsSince w (snd (listener env works liveState w)))
              \<longrightarrow> nextAddr (heap w) \<le> a)"
proof -
  let ?l = "snd (listener env works liveState w)"
  have "sameObjects (heap w) (heap ?l)
      \<and> (\<forall>a. TrimStateCall a \<in> set (callsSince w ?l) \<longrightarrow> nextAddr (heap w) \<le> a)"
  proof (cases works)
    case False
    then show ?thesis by (simp add: listener_def sameObjects_refl callsSince_def)
  next
    case True
    let ?str = "jsonStringify env (readState (heap w) liveState)"
    show ?thesis
    proof (cases "setItem env (localStorage w) REDUX_STATE_LOCAL_STORAGE_KEY ?str")
      case (Inr ls)
      from save_ok[OF this] show ?thesis
        using True by (simp add: listener_def sameObjects_refl callsSince_def)
    next
      case (Inl e)
      let ?c = "deepCopy (heap w) liveState"
      let ?w2 = "w\<lparr>heap := snd ?c,
           calls := calls w @ [SetItemCall REDUX_STATE_LOCAL_STORAGE_KEY ?str, DeepCopyCall liveState]\<rparr>"
      have l: "?l = trimLoop env 0 (fst ?c) ?w2"
        using True by (simp add: listener_first_write_fails[OF Inl])
      have "ownCopy (heap w) (storeStateDefault env) (heap ?w2) (fst ?c)"
        using deepCopy_ownCopy[of "heap w" "storeStateDefault env" liveState] by simp
      from trimLoop_ownCopy[OF assms(1,2,3) this, of 0]
      obtain new where n: "sameObjects (heap w) (heap (trimLoop env 0 (fst ?c) ?w2))"
        "calls (trimLoop env 0 (fst ?c) ?w2) = calls ?w2 @ new"
        "\<forall>a. TrimStateCall a \<in> set new \<longrightarrow> nextAddr (heap w) \<le> a" by blast
      show ?thesis unfolding l using n by (auto simp: callsSince_def)
    qed
  qed
  then show ?thesis
    using sameObjects_readState[OF _ assms(4), of "heap ?l"] by blast
qed

theorem listener_leaves_live_state_witness:
  "allocatedState (heap freshWorld) (storeStateDefault pickyEnv)
   \<and> vSpecs (readState (heap freshWorld) (storeStateDefault pickyEnv)) = []
   \<and> vMatches (readState (heap freshWorld) (storeStateDefault pickyEnv)) = []
   \<and> allocatedState (heap freshWorld) 1
   \<and> sameObjects (heap freshWorld) (heap (snd (listener pickyEnv True 1 freshWorld)))
   \<and> readState (heap (snd (listener pickyEnv True 1 freshWorld))) 1 =
       \<lparr> vSpecs = [(''chess'', ''spec c''), (''go'', ''spec g''), (''checkers'', ''spec k'')],
         vGameSpecsRest = ''images'',
         vMatches = [\<lparr>gameSpecId = ''go'', lastUpdatedOn = 7, matchRest = ''with bob''\<rparr>],
         vContacts = [(''+15550100'', ''bob'')],
         vMyUser = ''alice'',
         vStateRest = ''800x600'' \<rparr>
   \<and> filter isTrimStateCall (callsSince freshWorld (snd (listener pickyEnv True 1 freshWorld)))
       = [TrimStateCall 2]"
proof -
  have d: "storeStateDefault pickyEnv = 0"
    by (simp add: pickyEnv_def roomyEnv_def)
  have h: "heap freshWorld = threeSpecsHeap"
    by (simp add: freshWorld_def)
  have n: "nextAddr threeSpecsHeap = 2"
    by (simp add: threeSpecsHeap_def)
  have a: "allocatedState (heap freshWorld) (storeStateDefault pickyEnv)"
    unfolding d h by (simp add: allocatedState_def specDictOf_def threeSpecsHeap_def defaultsHeap_def)
  have b: "vSpecs (readState (heap freshWorld) (storeStateDefault pickyEnv)) = []"
    unfolding d h by (simp add: readState_def threeSpecsHeap_def defaultsHeap_def)
  have c: "vMatches (readState (heap freshWorld) (storeStateDefault pickyEnv)) = []"
    unfolding d h by (simp add: readState_def threeSpecsHeap_def defaultsHeap_def)
  have e: "allocatedState (heap freshWorld) 1"
    unfolding h by (simp add: allocatedState_def specDictOf_def threeSpecsHeap_def defaultsHeap_def aliceObj_def)
  have r: "readState threeSpecsHeap 1 =
       \<lparr> vSpecs = [(''chess'', ''spec c''), (''go'', ''spec g''), (''checkers'', ''spec k'')],
         vGameSpecsRest = ''images'',
         vMatches = [\<lparr>gameSpecId = ''go'', lastUpdatedOn = 7, matchRest = ''with bob''\<rparr>],
         vContacts = [(''+15550100'', ''bob'')],
         vMyUser = ''alice'',
         vStateRest = ''800x600'' \<rparr>"
    by (simp add: readState_def threeSpecsHeap_def defaultsHeap_def aliceObj_def)
  have t: "filter isTrimStateCall (callsSince freshWorld (snd (listener pickyEnv True 1 freshWorld)))
       = [TrimStateCall 2]"
    using freshWorld_run by (simp add: callsSince_def freshWorld_def)
  show ?thesis
    using a b c e t listener_leaves_live_state [OF a b c e, of True]
    unfolding h n r by blast
qed

subsection \<open>C4: a write that fails for another reason than the quota\<close>




subsection \<open>C5: orphaned game specifications go first, all at once\<close>

text \<open>
  C5. When at least one game specification of the state is orphaned, one call of
  \<^verbatim>\<open>trimState\<close> returns the same state object, from whose dictionary exactly the orphaned
  specifications are gone; the matches and every other field are as before. With three
  specifications of which one is in use, the other two are removed.
\<close>

theorem trimState_deletes_orphaned_specs:
  assumes "\<exists>specId. orphaned (readState h state) specId"
  shows "fst (trimState dflt h state) = state \<and>
         readState (snd (trimState dflt h state)) state =
           (readState h state)\<lparr>vSpecs := filter (\<lambda>kv. \<not> orphaned (readState h state) (fst kv))
                                            (vSpecs (readState h state))\<rparr>"
  unfolding trimState_specs[OF assms]
  by (simp add: readState_def Let_def specDictOf_def)

theorem trimState_deletes_orphaned_specs_witness:
  "(\<exists>specId. orphaned (readState threeSpecsHeap 1) specId)
   \<and> fst (trimState 0 threeSpecsHeap 1) = 1
   \<and> readState (snd (trimState 0 threeSpecsHeap 1)) 1 =
       \<lparr> vSpecs = [(''go'', ''spec g'')],
         vGameSpecsRest = ''images'',
         vMatches = [\<lparr>gameSpecId = ''go'', lastUpdatedOn = 7, matchRest = ''with bob''\<rparr>],
         vContacts = [(''+15550100'', ''bob'')],
         vMyUser = ''alice'',
         vStateRest = ''800x600'' \<rparr>"
proof -
  have r: "readState threeSpecsHeap 1 =
       \<lparr> vSpecs = [(''chess'', ''spec c''), (''go'', ''spec g''), (''checkers'', ''spec k'')],
         vGameSpecsRest = ''images'',
         vMatches = [\<lparr>gameSpecId = ''go'', lastUpdatedOn = 7, matchRest = ''with bob''\<rparr>],
         vContacts = [(''+15550100'', ''bob'')],
         vMyUser = ''alice'',
         vStateRest = ''800x600'' \<rparr>"
    by (simp add: readState_def threeSpecsHeap_def defaultsHeap_def aliceObj_def)
  have o: "\<exists>specId. orphaned (readState threeSpecsHeap 1) specId"
    unfolding r by (rule exI[of _ "''chess''"]) (simp add: orphaned_def)
  show ?thesis
    using o trimState_deletes_orphaned_specs [OF o, of 0]
    unfolding r by (simp add: orphaned_def)
qed

subsection \<open>C6: then the oldest match\<close>

text \<open>
  C6. When no game specification is orphaned and the state has a match, one call of
  \<^verbatim>\<open>trimState\<close> returns the same state object, from whose list exactly one match is gone:
  the one at the first index \<open>i\<close> whose \<open>lastUpdatedOn\<close> is the least of the list. Every
  other field is as before. Of two matches of times 100 and 200, the one of time 100 goes.
\<close>

theorem trimState_removes_oldest_match:
  assumes "\<not> (\<exists>specId. orphaned (readState h state) specId)"
      and "vMatches (readState h state) \<noteq> []"
  shows "\<exists>i<length (vMatches (readState h state)).
           (\<forall>j<length (vMatches (readState h state)).
               lastUpdatedOn (vMatches (readState h state) ! i) \<le> lastUpdatedOn (vMatches (readState h state) ! j))
         \<and> (\<forall>j<i. lastUpdatedOn (vMatches (readState h state) ! i) < lastUpdatedOn (vMatches (readState h state) ! j))
         \<and> fst (trimState dflt h state) = state
         \<and> readState (snd (trimState dflt h state)) state =
             (readState h state)\<lparr>vMatches := take i (vMatches (readState h state))
                                              @ drop (Suc i) (vMatches (readState h state))\<rparr>"
proof -
  let ?ms = "vMatches (readState h state)"
  from trimState_matches[OF assms, of dflt] obtain i where i: "i < length ?ms"
    "\<forall>j<length ?ms. lastUpdatedOn (?ms ! i) \<le> lastUpdatedOn (?ms ! j)"
    "\<forall>j<i. lastUpdatedOn (?ms ! i) < lastUpdatedOn (?ms ! j)"
    and t: "trimState dflt h state =
             (state, h\<lparr>matchArrays := (matchArrays h)(matchesList (stateObjs h state) :=
                 take i ?ms @ drop (Suc i) ?ms)\<rparr>)"
    by blast
  have "readState (snd (trimState dflt h state)) state = (readState h state)\<lparr>vMatches := take i ?ms @ drop (Suc i) ?ms\<rparr>"
    unfolding t by (simp add: readState_def Let_def)
  with i t show ?thesis by (intro exI[of _ i]) simp
qed

theorem trimState_removes_oldest_match_witness:
  "\<not> (\<exists>specId. orphaned (readState twoMatchesHeap 1) specId)
   \<and> vMatches (readState twoMatchesHeap 1) \<noteq> []
   \<and> fst (trimState 0 twoMatchesHeap 1) = 1
   \<and> readState (snd (trimState 0 twoMatchesHeap 1)) 1 =
       \<lparr> vSpecs = [],
         vGameSpecsRest = ''images'',
         vMatches = [\<lparr>gameSpecId = ''chess'', lastUpdatedOn = 200, matchRest = ''with carol''\<rparr>],
         vContacts = [(''+15550100'', ''bob'')],
         vMyUser = ''alice'',
         vStateRest = ''800x600'' \<rparr>"
proof -
  let ?ms = "[\<lparr>gameSpecId = ''go'', lastUpdatedOn = 100, matchRest = ''with bob''\<rparr>,
              \<lparr>gameSpecId = ''chess'', lastUpdatedOn = 200, matchRest = ''with carol''\<rparr>]"
  have r: "readState twoMatchesHeap 1 =
       \<lparr> vSpecs = [],
         vGameSpecsRest = ''images'',
         vMatches = ?ms,
         vContacts = [(''+15550100'', ''bob'')],
         vMyUser = ''alice'',
         vStateRest = ''800x600'' \<rparr>"
    by (simp add: readState_def twoMatchesHeap_def defaultsHeap_def aliceObj_def)
  have a: "\<not> (\<exists>specId. orphaned (readState twoMatchesHeap 1) specId)"
    unfolding r by (simp add: orphaned_def)
  have b: "vMatches (readState twoMatchesHeap 1) \<noteq> []"
    unfolding r by simp
  have m: "vMatches (readState twoMatchesHeap 1) = ?ms"
    unfolding r by simp
  from trimState_removes_oldest_match [OF a b, of 0, unfolded m]
  obtain i where i: "i < length ?ms" "\<forall>j<length ?ms. lastUpdatedOn (?ms ! i) \<le> lastUpdatedOn (?ms ! j)"
    and f: "fst (trimState 0 twoMatchesHeap 1) = 1"
    and res: "readState (snd (trimState 0 twoMatchesHeap 1)) 1 =
       (readState twoMatchesHeap 1)\<lparr>vMatches := take i ?ms @ drop (Suc i) ?ms\<rparr>"
    by blast
  from i(2) have "lastUpdatedOn (?ms ! i) \<le> lastUpdatedOn (?ms ! 0)" by blast
  with i(1) have "i = 0" by (cases i) auto
  with res f a b show ?thesis unfolding r by simp
qed

subsection \<open>C7: trimming again and again\<close>

text \<open>
  C7. Let \<^verbatim>\<open>storeStateDefault\<close> be in use and have no game specification, no match and no
  contact. From any state, after \<open>n\<close> calls of \<^verbatim>\<open>trimState\<close> with \<open>n\<close> at least the number
  of specifications plus the number of matches plus 1 plus 1, the value of the state is
  \<^verbatim>\<open>{...storeStateDefault, myUser: state.myUser}\<close>, and one more call returns a state of
  the same value.
\<close>

theorem trimState_fixed_point:
  assumes "dflt < nextAddr h"
      and "fullyTrimmed (readState h dflt)"
      and "length (vSpecs (readState h state)) + length (vMatches (readState h state)) + 1 + 1 \<le> n"
  shows "valueOf (trimTimes dflt n (state, h)) = (readState h dflt)\<lparr>vMyUser := vMyUser (readState h state)\<rparr>
       \<and> valueOf (trimState dflt (snd (trimTimes dflt n (state, h))) (fst (trimTimes dflt n (state, h))))
           = valueOf (trimTimes dflt n (state, h))"
proof -
  let ?F = "(readState h dflt)\<lparr>vMyUser := vMyUser (readState h state)\<rparr>"
  have "trimSize (readState h state) < n" "trimSize (readState h state) < Suc n"
    using assms(3) by (simp_all add: trimSize_def)
  from trimTimes_reaches_default[OF assms(1,2) this(1)] trimTimes_reaches_default[OF assms(1,2) this(2)]
  have a: "valueOf (trimTimes dflt n (state, h)) = ?F" and b: "valueOf (trimTimes dflt (Suc n) (state, h)) = ?F"
    by simp_all
  have "trimTimes dflt (Suc n) (state, h)
      = trimState dflt (snd (trimTimes dflt n (state, h))) (fst (trimTimes dflt n (state, h)))"
  proof (induction n arbitrary: state h)
    case 0
    show ?case by simp
  next
    case (Suc n)
    show ?case using Suc.IH[of "fst (trimState dflt h state)" "snd (trimState dflt h state)"] by simp
  qed
  with a b show ?thesis by simp
qed

theorem trimState_fixed_point_witness:
  "0 < nextAddr threeSpecsHeap
   \<and> fullyTrimmed (readState threeSpecsHeap 0)
   \<and> length (vSpecs (readState threeSpecsHeap 1)) + length (vMatches (readState threeSpecsHeap 1)) + 1 + 1 \<le> 6
   \<and> valueOf (trimTimes 0 6 (1, threeSpecsHeap)) =
       \<lparr> vSpecs = [], vGameSpecsRest = ''no images'', vMatches = [], vContacts = [],
         vMyUser = ''alice'', vStateRest = ''no dimensions'' \<rparr>
   \<and> valueOf (trimState 0 (snd (trimTimes 0 6 (1, threeSpecsHeap))) (fst (trimTimes 0 6 (1, threeSpecsHeap))))
       = valueOf (trimTimes 0 6 (1, threeSpecsHeap))"
proof -
  have a: "0 < nextAddr threeSpecsHeap"
    by (simp add: threeSpecsHeap_def)
  have b: "fullyTrimmed (readState threeSpecsHeap 0)"
    by (simp add: fullyTrimmed_def readState_def threeSpecsHeap_def defaultsHeap_def)
  have c: "length (vSpecs (readState threeSpecsHeap 1)) + length (vMatches (readState threeSpecsHeap 1)) + 1 + 1 \<le> 6"
    by (simp add: readState_def threeSpecsHeap_def defaultsHeap_def aliceObj_def)
  have d: "(readState threeSpecsHeap 0)\<lparr>vMyUser := vMyUser (readState threeSpecsHeap 1)\<rparr> =
       \<lparr> vSpecs = [], vGameSpecsRest = ''no images'', vMatches = [], vContacts = [],
         vMyUser = ''alice'', vStateRest = ''no dimensions'' \<rparr>"
    by (simp add: readState_def threeSpecsHeap_def defaultsHeap_def aliceObj_def)
  show ?thesis
    using a b c trimState_fixed_point [OF a b c] unfolding d by simp
qed

subsection \<open>C8: \<^verbatim>\<open>trimState\<close> and its argument\<close>

text \<open>
  C8, as stated, fails: \<^verbatim>\<open>trimState\<close> changes its argument. Called on a state with two
  matches, it returns the very object it was given, whose list now has one match.
\<close>

theorem trimState_mutates_counterexample:
  "fst (trimState 0 twoMatchesHeap 1) = 1
   \<and> vMatches (readState twoMatchesHeap 1) =
        [\<lparr>gameSpecId = ''go'', lastUpdatedOn = 100, matchRest = ''with bob''\<rparr>,
         \<lparr>gameSpecId = ''chess'', lastUpdatedOn = 200, matchRest = ''with carol''\<rparr>]
   \<and> vMatches (readState (snd (trimState 0 twoMatchesHeap 1)) 1) =
        [\<lparr>gameSpecId = ''chess'', lastUpdatedOn = 200, matchRest = ''with carol''\<rparr>]"
  by (simp add: trimState_def readState_def twoMatchesHeap_def defaultsHeap_def aliceObj_def
      gameSpecsToDelete_def objectKeys_def oldestMatch_def indexOf_def splice_def Let_def)

text \<open>
  C8, amended. While the state has an orphaned game specification, a match or a contact,
  \<^verbatim>\<open>trimState\<close> returns the object it was given, changed in place: its value is no longer
  what it was. Only when none of these is left does \<^verbatim>\<open>trimState\<close> leave every object in use
  untouched and return a new object.
\<close>

theorem trimState_in_place:
  "(\<not> fullyTrimmed (readState h state) \<longrightarrow>
       fst (trimState dflt h state) = state
     \<and> readState (snd (trimState dflt h state)) state \<noteq> readState h state)
 \<and> (fullyTrimmed (readState h state) \<longrightarrow>
       fst (trimState dflt h state) = nextAddr h
     \<and> sameObjects h (snd (trimState dflt h state)))"
proof (intro conjI impI)
  assume nt: "\<not> fullyTrimmed (readState h state)"
  show "fst (trimState dflt h state) = state"
  proof (cases rule: trim_cases[of h state])
    case specs
    show ?thesis unfolding trimState_specs[OF specs] by simp
  next
    case matches
    from trimState_matches[OF matches, of dflt] show ?thesis by auto
  next
    case contacts
    show ?thesis unfolding trimState_contacts[OF contacts] by simp
  next
    case default
    with nt show ?thesis by simp
  qed
  then have "valueOf (trimState dflt h state) = readState (snd (trimState dflt h state)) state"
    by (simp add: valueOf_def)
  with trimState_shrinks[OF nt, of dflt]
  show "readState (snd (trimState dflt h state)) state \<noteq> readState h state"
    by auto
next
  assume t: "fullyTrimmed (readState h state)"
  show "fst (trimState dflt h state) = nextAddr h"
    unfolding trimState_default[OF t] by simp
  show "sameObjects h (snd (trimState dflt h state))"
    unfolding trimState_default[OF t] by (simp add: sameObjects_def)
qed

theorem trimState_in_place_witness:
  "\<not> fullyTrimmed (readState twoMatchesHeap 1)
   \<and> fst (trimState 0 twoMatchesHeap 1) = 1
   \<and> readState (snd (trimState 0 twoMatchesHeap 1)) 1 \<noteq> readState twoMatchesHeap 1
   \<and> fullyTrimmed (readState defaultsHeap 0)
   \<and> fst (trimState 0 defaultsHeap 0) = 1
   \<and> sameObjects defaultsHeap (snd (trimState 0 defaultsHeap 0))"
proof -
  have a: "\<not> fullyTrimmed (readState twoMatchesHeap 1)"
    by (simp add: fullyTrimmed_def readState_def twoMatchesHeap_def defaultsHeap_def aliceObj_def)
  have b: "fullyTrimmed (readState defaultsHeap 0)"
    by (simp add: fullyTrimmed_def readState_def defaultsHeap_def)
  have n: "nextAddr defaultsHeap = 1" by (simp add: defaultsHeap_def)
  show ?thesis
    using a b trimState_in_place [of twoMatchesHeap 1 0] trimState_in_place [of defaultsHeap 0 0]
    unfolding n by blast
qed

subsection \<open>C9: \<^verbatim>\<open>dispatch\<close> and the keys of an action\<close>

text \<open>
  C9. An action object whose number of own keys is not one makes \<^verbatim>\<open>dispatch\<close> fail with
  \<open>InvariantViolation\<close>, and nothing is dispatched. An action object with the single key
  \<open>k\<close> gets \<open>k\<close> stored under \<^verbatim>\<open>type\<close> and is given to \<^verbatim>\<open>store.dispatch\<close>, whose result is
  the result of \<^verbatim>\<open>dispatch\<close>.
\<close>

theorem dispatch_single_key:
  "(length (objectKeys action) \<noteq> 1 \<longrightarrow> dispatch storeDispatch action st = (Inl InvariantViolation, action))
 \<and> (\<forall>k. objectKeys action = [k] \<longrightarrow>
        snd (dispatch storeDispatch action st) = AList.update ''type'' (TypeName k) action
      \<and> map_of (snd (dispatch storeDispatch action st)) ''type'' = Some (TypeName k)
      \<and> fst (dispatch storeDispatch action st) = storeDispatch (snd (dispatch storeDispatch action st)) st)"
  by (auto simp: dispatch_def checkCondition_def Let_def update_conv')

theorem dispatch_single_key_witness:
  "dispatch recordAction [] [] = (Inl InvariantViolation, [])
 \<and> dispatch recordAction [(''setWindowDimensions'', Payload ''800x600''), (''type'', TypeName ''x'')] []
     = (Inl InvariantViolation, [(''setWindowDimensions'', Payload ''800x600''), (''type'', TypeName ''x'')])
 \<and> dispatch recordAction [(''setWindowDimensions'', Payload ''800x600'')] []
     = (Inr [ [(''setWindowDimensions'', Payload ''800x600''), (''type'', TypeName ''setWindowDimensions'')] ],
        [(''setWindowDimensions'', Payload ''800x600''), (''type'', TypeName ''setWindowDimensions'')])"
  using dispatch_single_key [of "[]" recordAction "[]"]
    dispatch_single_key [of "[(''setWindowDimensions'', Payload ''800x600''), (''type'', TypeName ''x'')]" recordAction "[]"]
    dispatch_single_key [of "[(''setWindowDimensions'', Payload ''800x600'')]" recordAction "[]"]
  by (simp add: objectKeys_def recordAction_def prod_eq_iff)

subsection \<open>C10: the probe of the storage fails\<close>

text \<open>
  C10, as stated, fails: \<^verbatim>\<open>persistNewState\<close> subscribes its function to the store whether
  or not the probe has succeeded. With a storage that refuses the test write, the module
  loads with one subscribed function.
\<close>

theorem failed_probe_counterexample:
  "\<not> fst (checkIfLocalStorageWorks fullStorageEnv threeSpecsWorld)
   \<and> loadedListeners (fst (loadModule fullStorageEnv threeSpecsWorld)) = [PersistNewStateListener]
   \<and> calls (snd (loadModule fullStorageEnv threeSpecsWorld))
       = [SetItemCall ''testLocalStorage'' ''someTestValue'', SubscribeCall]"
  by (simp add: loadedListeners_def loadModule_def checkIfLocalStorageWorks_def restoreOldState_def
      persistNewState_def subscribe_def createStore_def fullStorageEnv_def threeSpecsWorld_def Let_def)

text \<open>
  C10, amended. When the probe fails, the module still loads and subscribes its one function
  to the store, with \<^verbatim>\<open>hasLocalStorage\<close> false; through any sequence of state changes that
  function then makes no call at all, so the storage is never written after the probe.
\<close>

theorem failed_probe_listener_idle:
  assumes "\<not> fst (checkIfLocalStorageWorks env w)"
  shows "\<exists>m. fst (loadModule env w) = Inr m
           \<and> \<not> hasLocalStorage m
           \<and> listeners (store m) = [PersistNewStateListener]
           \<and> (\<forall>changes. calls (lifetime env m changes (snd (loadModule env w))) = calls (snd (loadModule env w))
                \<and> localStorage (lifetime env m changes (snd (loadModule env w)))
                    = localStorage (snd (loadModule env w)))"
proof -
  obtain w1 where p: "checkIfLocalStorageWorks env w = (False, w1)"
    using assms by (cases "checkIfLocalStorageWorks env w") auto
  let ?m = "\<lparr> isInUnitTests = \<not> windowDefined env, hasLocalStorage = False,
               persistedOldStore = None, store = subscribe PersistNewStateListener createStore,
               resizeEvents = (if \<not> windowDefined env then [] else [''resize'', ''orientationchange'']) \<rparr>
            :: 'a moduleState"
  have "loadModule env w = (Inr ?m, w1\<lparr>calls := calls w1 @ [SubscribeCall]\<rparr>)"
       "\<not> hasLocalStorage ?m" "listeners (store ?m) = [PersistNewStateListener]"
    by (simp_all add: loadModule_def p restore_off persistNewState_def subscribe_def createStore_def)
  then obtain m where l: "loadModule env w = (Inr m, w1\<lparr>calls := calls w1 @ [SubscribeCall]\<rparr>)"
    and off: "\<not> hasLocalStorage m" and ls: "listeners (store m) = [PersistNewStateListener]"
    by blast
  show ?thesis
    unfolding l fst_conv snd_conv
    using off ls by (intro exI[of _ m]) (simp add: lifetime_off[OF off])
qed

theorem failed_probe_listener_idle_witness:
  "\<not> fst (checkIfLocalStorageWorks fullStorageEnv threeSpecsWorld)
   \<and> (\<exists>m. fst (loadModule fullStorageEnv threeSpecsWorld) = Inr m
           \<and> \<not> hasLocalStorage m
           \<and> listeners (store m) = [PersistNewStateListener]
           \<and> calls (lifetime fullStorageEnv m [(twoMatchesHeap, 1), (threeSpecsHeap, 1)]
                      (snd (loadModule fullStorageEnv threeSpecsWorld)))
               = [SetItemCall ''testLocalStorage'' ''someTestValue'', SubscribeCall])"
proof -
  have p: "\<not> fst (checkIfLocalStorageWorks fullStorageEnv threeSpecsWorld)"
    by (simp add: checkIfLocalStorageWorks_def fullStorageEnv_def Let_def)
  have c: "calls (snd (loadModule fullStorageEnv threeSpecsWorld))
       = [SetItemCall ''testLocalStorage'' ''someTestValue'', SubscribeCall]"
    by (simp add: loadModule_def checkIfLocalStorageWorks_def restoreOldState_def persistNewState_def
      fullStorageEnv_def threeSpecsWorld_def Let_def)
  from failed_probe_listener_idle [OF p] c p show ?thesis by metis
qed


end
